theory Spec2Isabelle
  imports Main "HOL-Library.Sublist"
begin

section \<open>Python string operations used by the scrapers\<close>

text \<open>
  Python strings are modelled as \<open>string\<close> (lists of 8-bit characters), so the model
  covers ASCII text. \<open>is_space\<close> is the set of ASCII characters for which Python's
  \<open>str.isspace\<close> holds; it is what \<open>str.strip()\<close> removes and what the regular
  expression class \<open>\s\<close> matches.
\<close>

definition is_space :: "char \<Rightarrow> bool" where
  "is_space c = (let n = (of_char c :: nat) in (9 \<le> n \<and> n \<le> 13) \<or> (28 \<le> n \<and> n \<le> 32))"

text \<open>\<open>s.strip()\<close>: leading and trailing whitespace removed.\<close>

definition strip :: "string \<Rightarrow> string" where
  "strip s = rev (dropWhile is_space (rev (dropWhile is_space s)))"

text \<open>\<open>s.split(c)[0]\<close> for a one-character separator: the part before its first occurrence.\<close>

definition split_first :: "char \<Rightarrow> string \<Rightarrow> string" where
  "split_first c s = takeWhile (\<lambda>x. x \<noteq> c) s"

definition lower_char :: "char \<Rightarrow> char" where
  "lower_char c = (let n = (of_char c :: nat) in if 65 \<le> n \<and> n \<le> 90 then char_of (n + 32) else c)"

definition upper_char :: "char \<Rightarrow> char" where
  "upper_char c = (let n = (of_char c :: nat) in if 97 \<le> n \<and> n \<le> 122 then char_of (n - 32) else c)"

definition lower :: "string \<Rightarrow> string" where
  "lower s = map lower_char s"

definition upper :: "string \<Rightarrow> string" where
  "upper s = map upper_char s"

text \<open>\<open>k in t\<close> on strings is the contiguous-substring test \<^const>\<open>sublist\<close>.\<close>

definition startswith :: "string \<Rightarrow> string \<Rightarrow> bool" where
  "startswith s p = prefix p s"

text \<open>\<open>s.replace(old, new)\<close> for a non-empty \<open>old\<close>, scanning left to right.\<close>

fun replace :: "string \<Rightarrow> string \<Rightarrow> string \<Rightarrow> string" where
  "replace old new [] = []"
| "replace old new (c # cs) =
     (if old \<noteq> [] \<and> prefix old (c # cs)
      then new @ replace old new (drop (length old) (c # cs))
      else c # replace old new cs)"

section \<open>Identity Keyer (trustpilot_scraper_dupefix.py, sortingapp/app/scrape_reviews.py)\<close>

text \<open>
  \<open>canonical_link(href: str | None)\<close>. \<open>not href\<close> holds for \<open>None\<close> and for the
  empty string.
\<close>

definition canonical_link :: "string option \<Rightarrow> string" where
  "canonical_link href =
     (case href of
        None \<Rightarrow> []
      | Some h \<Rightarrow>
          if h = [] then []
          else let base = split_first (CHR ''#'') h;
                   base = split_first (CHR ''?'') base
               in strip base)"

text \<open>
  \<open>stable_review_key\<close>. SHA-256 is library code: \<open>sha\<close> stands for
  \<open>\<lambda>s. hashlib.sha256(s.encode("utf-8")).hexdigest()\<close>.
\<close>

definition stable_review_key ::
  "(string \<Rightarrow> string) \<Rightarrow> string \<Rightarrow> string \<Rightarrow> string \<Rightarrow> string \<Rightarrow> string" where
  "stable_review_key sha reviewer date_str link text =
     (let link_key = canonical_link (Some link) in
      if link_key \<noteq> [] then ''link::'' @ link_key
      else let digest = sha (strip reviewer @ ''|'' @ strip date_str @ ''|'' @ strip text)
           in ''hash::'' @ digest)"

text \<open>
  The specification's view of a record key (section 3 and 4.1 of the specification):
  a two-variant value, and the keying contract written after the specification's words.
\<close>

datatype record_key = LinkKey string | HashKey string

definition key_spec ::
  "(string \<Rightarrow> string) \<Rightarrow> string \<Rightarrow> string \<Rightarrow> string \<Rightarrow> string \<Rightarrow> record_key" where
  "key_spec sha reviewer occurredAtISO link body =
     (if canonical_link (Some link) \<noteq> [] then LinkKey (canonical_link (Some link))
      else HashKey (sha (strip reviewer @ ''|'' @ strip occurredAtISO @ ''|'' @ strip body)))"

text \<open>How the code writes the two variants as strings.\<close>

fun encode_key :: "record_key \<Rightarrow> string" where
  "encode_key (LinkKey l) = ''link::'' @ l"
| "encode_key (HashKey d) = ''hash::'' @ d"

section \<open>Offline deduplication (dedupe_results.py)\<close>

text \<open>
  \<open>re.sub(r"\s+", " ", t)\<close>: every maximal run of whitespace becomes one space.
\<close>

function collapse_ws :: "string \<Rightarrow> string" where
  "collapse_ws [] = []"
| "collapse_ws (c # cs) =
     (if is_space c then CHR '' '' # collapse_ws (dropWhile is_space cs)
      else c # collapse_ws cs)"
  by pat_completeness auto
termination
  by (relation "measure length") (auto simp: length_dropWhile_le less_Suc_eq_le)

text \<open>\<open>_normalize_whitespace(text)\<close>; \<open>None\<close> gives the empty string.\<close>

definition normalize_whitespace :: "string option \<Rightarrow> string" where
  "normalize_whitespace text =
     (case text of None \<Rightarrow> [] | Some t \<Rightarrow> lower (collapse_ws (strip t)))"

text \<open>
  \<open>_canonical_link(link)\<close> of dedupe_results.py: only the query string is cut, the
  fragment stays (unlike \<open>canonical_link\<close> of the scrapers).
\<close>

definition canonical_link_dedupe :: "string \<Rightarrow> string" where
  "canonical_link_dedupe link =
     (if link = [] then [] else strip (split_first (CHR ''?'') link))"

type_synonym review_key = "string \<times> string \<times> string \<times> string"

definition review_key :: "string \<Rightarrow> string \<Rightarrow> string \<Rightarrow> string \<Rightarrow> review_key" where
  "review_key reviewer date link text =
     (normalize_whitespace (Some reviewer),
      normalize_whitespace (Some date),
      canonical_link_dedupe link,
      normalize_whitespace (Some text))"

text \<open>A record is a \<open>Dict[str, str]\<close>; \<open>r.get(k, d)\<close> is \<open>dict_get r k d\<close>.\<close>

type_synonym dict = "string \<rightharpoonup> string"

definition dict_get :: "dict \<Rightarrow> string \<Rightarrow> string \<Rightarrow> string" where
  "dict_get r k d = (case r k of None \<Rightarrow> d | Some v \<Rightarrow> v)"

text \<open>The key \<open>_dedupe_records\<close> computes for one record (its loop body up to \<open>key = ...\<close>).\<close>

definition record_key_of :: "dict \<Rightarrow> review_key" where
  "record_key_of r =
     (let reviewer = dict_get r ''reviewer'' [];
          date = dict_get r ''date'' [];
          link = dict_get r ''link'' [];
          text = dict_get r ''text'' []
      in review_key reviewer date link text)"

text \<open>The \<open>for r in records\<close> loop of \<open>_dedupe_records\<close>, with its two accumulators.\<close>

fun dedupe_loop ::
  "review_key set \<Rightarrow> dict list \<Rightarrow> dict list \<Rightarrow> review_key set \<times> dict list" where
  "dedupe_loop seen unique [] = (seen, unique)"
| "dedupe_loop seen unique (r # rs) =
     (let key = record_key_of r in
      if key \<in> seen then dedupe_loop seen unique rs
      else dedupe_loop (insert key seen) (unique @ [r]) rs)"

definition dedupe_records :: "dict list \<Rightarrow> dict list" where
  "dedupe_records records = snd (dedupe_loop {} [] records)"

text \<open>
  The claimed result, written after the claim's words: the records, in input order, at the
  positions whose key does not occur at an earlier position.
\<close>

definition first_occurrences :: "dict list \<Rightarrow> dict list" where
  "first_occurrences rs =
     map (\<lambda>i. rs ! i)
       (filter (\<lambda>i. record_key_of (rs ! i) \<notin> record_key_of ` set (take i rs))
          [0..<length rs])"

text \<open>The loop without its list accumulator: what is kept of \<open>rs\<close> when \<open>seen\<close> is known.\<close>

fun keep :: "review_key set \<Rightarrow> dict list \<Rightarrow> dict list" where
  "keep seen [] = []"
| "keep seen (r # rs) =
     (if record_key_of r \<in> seen then keep seen rs
      else r # keep (insert (record_key_of r) seen) rs)"

text \<open>Two records with the same link up to the query string and different texts.\<close>

definition dup_a :: dict where
  "dup_a = [''reviewer'' \<mapsto> ''Ann'', ''date'' \<mapsto> ''2024-01-02'',
            ''link'' \<mapsto> ''https://x/reviews/1?utm=a'', ''text'' \<mapsto> ''Slow  refund'']"

definition dup_b :: dict where
  "dup_b = [''reviewer'' \<mapsto> ''Ann'', ''date'' \<mapsto> ''2024-01-02'',
            ''link'' \<mapsto> ''https://x/reviews/1'', ''text'' \<mapsto> ''Rude staff'']"

section \<open>The scrapers: data\<close>

text \<open>
  Library code the scrapers call is taken as a parameter: the SHA-256 hex digest of the
  UTF-8 encoding of a string, \<open>datetime.strptime(s, "%Y-%m-%d")\<close> (\<open>None\<close> when it raises
  \<open>ValueError\<close>), \<open>d.strftime("%Y-%m-%d")\<close>, and the value of \<open>datetime.now()\<close> when
  \<open>scrape_reviews\<close> starts. A \<open>datetime\<close> is an integer number of microseconds.
\<close>

record env =
  sha256_hex :: "string \<Rightarrow> string"
  strptime :: "string \<Rightarrow> int option"
  strftime :: "int \<Rightarrow> string"
  now :: int

definition timedelta_days :: "int \<Rightarrow> int" where
  "timedelta_days d = d * 86400000000"

text \<open>
  One \<open>article\<close> element, as the DOM helpers read it: \<open>extract_reviewer_name\<close>,
  \<open>extract_review_text\<close>, \<open>extract_review_permalink\<close> (\<open>None\<close> without a link) and the
  \<open>datetime\<close> attribute of its \<open>time\<close> element (\<open>None\<close> when the lookup raises).
\<close>

record block =
  b_reviewer :: string
  b_text :: string
  b_permalink :: "string option"
  b_time :: "string option"

text \<open>One collected review: the dictionary with keys reviewer, date, link and text.\<close>

record review =
  r_reviewer :: string
  r_date :: string
  r_link :: string
  r_text :: string

text \<open>
  The arguments of \<open>scrape_reviews\<close>. \<open>cfg_prior\<close> is what \<open>load_previous_reviews\<close>
  returned when resuming (empty otherwise); \<open>keywords=None\<close> is the empty list, which
  Python treats alike. \<open>cfg_start_date\<close> and \<open>cfg_end_date\<close> exist in
  sortingapp/app/scrape_reviews.py only.
\<close>

record config =
  cfg_mode :: int
  cfg_max_pages :: "int option"
  cfg_months :: "int option"
  cfg_keywords :: "string list"
  cfg_start_date :: "string option"
  cfg_end_date :: "string option"
  cfg_prior :: "review list"

text \<open>
  The browser: whether \<open>driver.get\<close> of a page succeeds at a given attempt (no
  \<open>WebDriverException\<close>), and the \<open>article\<close> elements found on a loaded page.
\<close>

record world =
  get_ok :: "int \<Rightarrow> nat \<Rightarrow> bool"
  articles :: "int \<Rightarrow> block list"

text \<open>The values \<open>scrape_reviews\<close> computes once, before its loop.\<close>

record prepared =
  cutoff_date :: "int option"
  start_dt :: "int option"
  end_dt :: "int option"
  keyword_and :: "string list"
  keyword_or :: "string list"

text \<open>
  The variables the loop updates. \<open>saved\<close> is the list \<open>save_reviews\<close> wrote last.
  Printing, sleeping and the \<open>page_found\<close> counter (used for printing only) are left out.
\<close>

record locals =
  reviews :: "review list"
  seen_keys :: "string set"
  page :: int
  consecutive_no_additions :: nat
  previous_page_signature :: "string list option"
  same_page_signature_count :: nat
  page_added :: nat
  page_links_for_signature :: "string list"
  page_all_older_than_cutoff :: bool
  saved :: "review list"

datatype control = Break locals | Continue locals

datatype error = ValueError

section \<open>The scrapers: preparation\<close>

text \<open>Python truth values of an optional string and an optional integer; \<open>x or ""\<close>.\<close>

definition truthy_str :: "string option \<Rightarrow> bool" where
  "truthy_str x = (case x of None \<Rightarrow> False | Some s \<Rightarrow> s \<noteq> [])"

definition truthy_int :: "int option \<Rightarrow> bool" where
  "truthy_int x = (case x of None \<Rightarrow> False | Some n \<Rightarrow> n \<noteq> 0)"

definition or_empty :: "string option \<Rightarrow> string" where
  "or_empty x = (case x of None \<Rightarrow> [] | Some s \<Rightarrow> s)"

text \<open>\<open>cutoff_date = datetime.now() - timedelta(days=30 * months) if months else None\<close>\<close>

definition compute_cutoff :: "env \<Rightarrow> int option \<Rightarrow> int option" where
  "compute_cutoff e months =
     (case months of
        None \<Rightarrow> None
      | Some m \<Rightarrow> if m \<noteq> 0 then Some (now e - timedelta_days (30 * m)) else None)"

text \<open>
  "Prepare keyword filters": one pass over \<open>keywords\<close>, appending to \<open>keyword_and\<close> or
  \<open>keyword_or\<close>.
\<close>

definition classify_keyword :: "string list \<times> string list \<Rightarrow> string \<Rightarrow> string list \<times> string list" where
  "classify_keyword acc k0 =
     (let k = strip k0 in
      if startswith k ''+'' \<or> sublist ''AND'' (upper k)
      then (fst acc @ [strip (replace ''AND'' [] (replace ''+'' [] k))], snd acc)
      else (fst acc, snd acc @ [k]))"

definition prepare_keywords :: "string list \<Rightarrow> string list \<times> string list" where
  "prepare_keywords keywords =
     (if keywords \<noteq> [] then foldl classify_keyword ([], []) keywords else ([], []))"

text \<open>The resume branch: the loaded reviews and the keys computed from them.\<close>

definition init_locals :: "env \<Rightarrow> review list \<Rightarrow> locals" where
  "init_locals e prior =
     \<lparr>reviews = prior,
      seen_keys = set (map (\<lambda>r. stable_review_key (sha256_hex e)
                                 (r_reviewer r) (r_date r) (r_link r) (r_text r)) prior),
      page = 1,
      consecutive_no_additions = 0,
      previous_page_signature = None,
      same_page_signature_count = 0,
      page_added = 0,
      page_links_for_signature = [],
      page_all_older_than_cutoff = False,
      saved = []\<rparr>"

definition max_retries :: nat where
  "max_retries = 3"

definition max_consecutive_no_additions :: nat where
  "max_consecutive_no_additions = 3"

section \<open>The scrapers: one record\<close>

text \<open>
  The \<open>try\<close> block that reads the date: the part of the attribute before \<open>T\<close>, parsed;
  \<open>None\<close> stands for the \<open>except Exception: continue\<close> branch.
\<close>

definition parse_date :: "env \<Rightarrow> block \<Rightarrow> int option" where
  "parse_date e b =
     (case b_time b of
        None \<Rightarrow> None
      | Some a \<Rightarrow> strptime e (split_first (CHR ''T'') a))"

text \<open>
  "Keyword filter logic (AND + OR)", the same lines in all three scrapers; the result is
  the final value of \<open>add_review\<close>.
\<close>

definition keyword_filter :: "string list \<Rightarrow> string list \<Rightarrow> string list \<Rightarrow> string \<Rightarrow> bool" where
  "keyword_filter keywords kw_and kw_or text =
     (let add_review = True in
      if keywords \<noteq> [] then
        (let add_review =
               (if kw_and \<noteq> [] \<and> \<not> list_all (\<lambda>k. sublist (lower k) (lower text)) kw_and
                then False else add_review);
             add_review =
               (if kw_or \<noteq> [] \<and> \<not> list_ex (\<lambda>k. sublist (lower k) (lower text)) kw_or
                then (if kw_and = [] then False else add_review) else add_review)
         in add_review)
      else add_review)"

text \<open>\<open>if cutoff_date and review_date >= cutoff_date\<close>\<close>

definition not_older :: "int option \<Rightarrow> int \<Rightarrow> bool" where
  "not_older cutoff review_date = (case cutoff of None \<Rightarrow> False | Some cd \<Rightarrow> review_date \<ge> cd)"

text \<open>The new review and the bookkeeping of an accepted record (dupefix and sortingapp).\<close>

definition append_review :: "env \<Rightarrow> locals \<Rightarrow> string \<Rightarrow> string \<Rightarrow> int \<Rightarrow> string option \<Rightarrow> string \<Rightarrow> locals" where
  "append_review e l key reviewer review_date review_link text =
     l\<lparr>seen_keys := insert key (seen_keys l),
       reviews := reviews l @ [\<lparr>r_reviewer = reviewer, r_date = strftime e review_date,
                                r_link = canonical_link review_link, r_text = text\<rparr>],
       page_added := page_added l + 1\<rparr>"

text \<open>
  The body of \<open>for i, block in enumerate(blocks)\<close> in trustpilot_scraper_dupefix.py
  (lines 264-310).
\<close>

definition process_block_dupefix :: "env \<Rightarrow> config \<Rightarrow> prepared \<Rightarrow> locals \<Rightarrow> block \<Rightarrow> locals" where
  "process_block_dupefix e c s l0 b =
     (let reviewer = b_reviewer b;
          text = b_text b;
          review_link = b_permalink b;
          l = (if truthy_str review_link
               then l0\<lparr>page_links_for_signature :=
                          page_links_for_signature l0 @ [canonical_link review_link]\<rparr>
               else l0)
      in case parse_date e b of
           None \<Rightarrow> l
         | Some review_date \<Rightarrow>
             (let l = (if not_older (cutoff_date s) review_date
                       then l\<lparr>page_all_older_than_cutoff := False\<rparr> else l)
              in if \<not> keyword_filter (cfg_keywords c) (keyword_and s) (keyword_or s) text then l
                 else (let key = stable_review_key (sha256_hex e) reviewer
                                   (strftime e review_date) (or_empty review_link) text
                       in if key \<in> seen_keys l then l
                          else append_review e l key reviewer review_date review_link text)))"

text \<open>
  The same loop body in sortingapp/app/scrape_reviews.py (lines 282-336): it adds the
  skip of empty and teaser texts and the date interval.
\<close>

definition endswith :: "string \<Rightarrow> string \<Rightarrow> bool" where
  "endswith s p = suffix p s"

definition before_start :: "int option \<Rightarrow> int \<Rightarrow> bool" where
  "before_start sd review_date = (case sd of None \<Rightarrow> False | Some t \<Rightarrow> review_date < t)"

definition after_end :: "int option \<Rightarrow> int \<Rightarrow> bool" where
  "after_end ed review_date = (case ed of None \<Rightarrow> False | Some t \<Rightarrow> review_date > t)"

definition process_block_app :: "env \<Rightarrow> config \<Rightarrow> prepared \<Rightarrow> locals \<Rightarrow> block \<Rightarrow> locals" where
  "process_block_app e c s l0 b =
     (let reviewer = b_reviewer b;
          text = b_text b
      in if text = [] \<or> endswith text ''See more'' then l0
         else
          (let review_link = b_permalink b;
               l = (if truthy_str review_link
                    then l0\<lparr>page_links_for_signature :=
                               page_links_for_signature l0 @ [canonical_link review_link]\<rparr>
                    else l0)
           in case parse_date e b of
                None \<Rightarrow> l
              | Some review_date \<Rightarrow>
                  (let l = (if not_older (cutoff_date s) review_date
                            then l\<lparr>page_all_older_than_cutoff := False\<rparr> else l)
                   in if before_start (start_dt s) review_date then l
                      else if after_end (end_dt s) review_date then l
                      else if \<not> keyword_filter (cfg_keywords c) (keyword_and s) (keyword_or s) text
                      then l
                      else (let key = stable_review_key (sha256_hex e) reviewer
                                        (strftime e review_date) (or_empty review_link) text
                            in if key \<in> seen_keys l then l
                               else append_review e l key reviewer review_date review_link text))))"

text \<open>
  The loop body of trustpilot_scraper.py (lines 199-241). Its state is the review list,
  the set \<open>seen_links\<close> and \<open>page_added\<close>; \<open>url\<close> is the address of the current page,
  used as the link of a record without a permalink.
\<close>

record base_locals =
  base_reviews :: "review list"
  seen_links :: "string set"
  base_page_added :: nat

definition older_than :: "int option \<Rightarrow> int \<Rightarrow> bool" where
  "older_than cutoff review_date = (case cutoff of None \<Rightarrow> False | Some cd \<Rightarrow> review_date < cd)"

definition process_block_base ::
  "env \<Rightarrow> config \<Rightarrow> prepared \<Rightarrow> string \<Rightarrow> base_locals \<Rightarrow> block \<Rightarrow> base_locals" where
  "process_block_base e c s url l0 b =
     (let reviewer = b_reviewer b;
          text = b_text b;
          review_link = (if truthy_str (b_permalink b) then or_empty (b_permalink b) else url)
      in case parse_date e b of
           None \<Rightarrow> l0
         | Some review_date \<Rightarrow>
             if older_than (cutoff_date s) review_date then l0
             else if review_link \<in> seen_links l0 then l0
             else (let l = l0\<lparr>seen_links := insert review_link (seen_links l0)\<rparr>
                   in if \<not> keyword_filter (cfg_keywords c) (keyword_and s) (keyword_or s) text
                      then l
                      else l\<lparr>base_reviews := base_reviews l @
                                 [\<lparr>r_reviewer = reviewer, r_date = strftime e review_date,
                                   r_link = review_link, r_text = text\<rparr>],
                              base_page_added := base_page_added l + 1\<rparr>))"

section \<open>The scrapers: one page\<close>

text \<open>
  \<open>for attempt in range(1, max_retries + 1)\<close>: a successful \<open>driver.get\<close> leaves the
  loop; a failure at the last attempt sets \<open>url = None\<close>. The state is whether \<open>url\<close> is
  still set, and the number of attempts made.
\<close>

fun get_attempts :: "(nat \<Rightarrow> bool) \<Rightarrow> nat list \<Rightarrow> bool \<times> nat \<Rightarrow> bool \<times> nat" where
  "get_attempts ok [] (url, made) = (url, made)"
| "get_attempts ok (attempt # rest) (url, made) =
     (if ok attempt then (url, Suc made)
      else if attempt = max_retries then get_attempts ok rest (False, Suc made)
      else get_attempts ok rest (url, Suc made))"

definition load_page :: "(nat \<Rightarrow> bool) \<Rightarrow> bool \<times> nat" where
  "load_page ok = get_attempts ok [1..<max_retries + 1] (True, 0)"

text \<open>\<open>mode == 1 and max_pages and page > max_pages\<close>\<close>

definition page_limit_reached :: "config \<Rightarrow> int \<Rightarrow> bool" where
  "page_limit_reached c p =
     (cfg_mode c = 1 \<and> (case cfg_max_pages c of None \<Rightarrow> False | Some m \<Rightarrow> m \<noteq> 0 \<and> p > m))"

text \<open>
  "Build a stable signature of this page's content to detect last page loops": the
  signature, its comparison with the previous one, and the previous one replaced.
\<close>

definition update_signature :: "locals \<Rightarrow> locals" where
  "update_signature l =
     (let page_signature = take 20 (page_links_for_signature l);
          l = (if previous_page_signature l \<noteq> None
                  \<and> Some page_signature = previous_page_signature l
               then l\<lparr>same_page_signature_count := same_page_signature_count l + 1\<rparr>
               else l\<lparr>same_page_signature_count := 0\<rparr>)
      in l\<lparr>previous_page_signature := Some page_signature\<rparr>)"

text \<open>"Update termination heuristics conservatively"\<close>

definition update_no_additions :: "locals \<Rightarrow> locals" where
  "update_no_additions l =
     (if page_added l = 0
      then l\<lparr>consecutive_no_additions := consecutive_no_additions l + 1\<rparr>
      else l\<lparr>consecutive_no_additions := 0\<rparr>)"

text \<open>
  "Mode-specific stopping rules": the \<open>if mode == 1 / elif mode == 2 / elif mode == 3\<close>
  chain, the same in trustpilot_scraper_dupefix.py and sortingapp/app/scrape_reviews.py.
  There is no branch for any other mode.
\<close>

definition should_stop :: "config \<Rightarrow> prepared \<Rightarrow> locals \<Rightarrow> bool" where
  "should_stop c s l =
     (if cfg_mode c = 1 then
        (if \<not> truthy_int (cfg_max_pages c) then
           (if same_page_signature_count l \<ge> 1
               \<or> consecutive_no_additions l \<ge> max_consecutive_no_additions
            then True else False)
         else False)
      else if cfg_mode c = 2 then
        (let stop = (if cutoff_date s \<noteq> None \<and> page_all_older_than_cutoff l
                        \<and> (page_added l = 0 \<or> consecutive_no_additions l \<ge> 1)
                     then True else False)
         in if same_page_signature_count l \<ge> 1 then True else stop)
      else if cfg_mode c = 3 then
        (if consecutive_no_additions l \<ge> max_consecutive_no_additions
            \<or> same_page_signature_count l \<ge> 1
         then True else False)
      else False)"

text \<open>
  The per-page variables reset, the records processed in order, the list saved.
\<close>

definition process_page :: "(locals \<Rightarrow> block \<Rightarrow> locals) \<Rightarrow> prepared \<Rightarrow> locals \<Rightarrow> block list \<Rightarrow> locals" where
  "process_page process s l blocks =
     (let l = l\<lparr>page_added := 0, page_links_for_signature := [],
                page_all_older_than_cutoff := (cutoff_date s \<noteq> None)\<rparr>;
          l = foldl process l blocks
      in l\<lparr>saved := reviews l\<rparr>)"

text \<open>
  One iteration of \<open>while True\<close>, the same in the two files but for the per-record code
  \<open>process\<close>: the page limit, the fetch with its retries, the page without cards, and the
  page with cards.
\<close>

definition loop_body ::
  "(locals \<Rightarrow> block \<Rightarrow> locals) \<Rightarrow> config \<Rightarrow> prepared \<Rightarrow> world \<Rightarrow> locals \<Rightarrow> control" where
  "loop_body process c s w l =
     (if page_limit_reached c (page l) then Break l
      else if \<not> fst (load_page (get_ok w (page l))) then Continue (l\<lparr>page := page l + 1\<rparr>)
      else
       (let blocks = articles w (page l) in
        if blocks = [] then
          (let l = l\<lparr>page := page l + 1,
                     consecutive_no_additions := consecutive_no_additions l + 1\<rparr>
           in if (cfg_mode c \<noteq> 1 \<or> \<not> truthy_int (cfg_max_pages c))
                  \<and> consecutive_no_additions l \<ge> max_consecutive_no_additions
              then Break l else Continue l)
        else
          (let l = process_page process s l blocks;
               l = update_signature l;
               l = update_no_additions l;
               stop = should_stop c s l;
               l = l\<lparr>page := page l + 1\<rparr>
           in if stop then Break l else Continue l)))"

section \<open>The scrapers: the run\<close>

text \<open>
  The \<open>while True\<close> loop with a bound on its iterations: \<open>None\<close> when the loop has not
  left after \<open>fuel\<close> iterations. Interruption from the keyboard is not modelled.
\<close>

fun scrape_loop :: "nat \<Rightarrow> (locals \<Rightarrow> control) \<Rightarrow> locals \<Rightarrow> locals option" where
  "scrape_loop 0 body l = None"
| "scrape_loop (Suc fuel) body l =
     (case body l of Break l' \<Rightarrow> Some l' | Continue l' \<Rightarrow> scrape_loop fuel body l')"

text \<open>
  \<open>scrape_reviews\<close> of trustpilot_scraper_dupefix.py: the list it returns (which the
  \<open>finally\<close> clause also saves).
\<close>

definition prepare_dupefix :: "env \<Rightarrow> config \<Rightarrow> prepared" where
  "prepare_dupefix e c =
     \<lparr>cutoff_date = compute_cutoff e (cfg_months c),
      start_dt = None, end_dt = None,
      keyword_and = fst (prepare_keywords (cfg_keywords c)),
      keyword_or = snd (prepare_keywords (cfg_keywords c))\<rparr>"

definition scrape_reviews_dupefix :: "nat \<Rightarrow> env \<Rightarrow> world \<Rightarrow> config \<Rightarrow> review list option" where
  "scrape_reviews_dupefix fuel e w c =
     (let s = prepare_dupefix e c in
      map_option reviews
        (scrape_loop fuel (loop_body (process_block_dupefix e c s) c s w)
           (init_locals e (cfg_prior c))))"

text \<open>
  \<open>scrape_reviews\<close> of sortingapp/app/scrape_reviews.py. Parsing \<open>start_date\<close> or
  \<open>end_date\<close> raises \<open>ValueError\<close> before the loop when the text is not a date.
\<close>

definition parse_bound :: "env \<Rightarrow> string option \<Rightarrow> error + int option" where
  "parse_bound e d =
     (if truthy_str d
      then (case strptime e (or_empty d) of None \<Rightarrow> Inl ValueError | Some t \<Rightarrow> Inr (Some t))
      else Inr None)"

definition prepare_app :: "env \<Rightarrow> config \<Rightarrow> error + prepared" where
  "prepare_app e c =
     (case parse_bound e (cfg_start_date c) of
        Inl err \<Rightarrow> Inl err
      | Inr sd \<Rightarrow>
          (case parse_bound e (cfg_end_date c) of
             Inl err \<Rightarrow> Inl err
           | Inr ed \<Rightarrow>
               Inr \<lparr>cutoff_date = compute_cutoff e (cfg_months c),
                    start_dt = sd, end_dt = ed,
                    keyword_and = fst (prepare_keywords (cfg_keywords c)),
                    keyword_or = snd (prepare_keywords (cfg_keywords c))\<rparr>))"

definition scrape_reviews_app ::
  "nat \<Rightarrow> env \<Rightarrow> world \<Rightarrow> config \<Rightarrow> (error + review list) option" where
  "scrape_reviews_app fuel e w c =
     (case prepare_app e c of
        Inl err \<Rightarrow> Some (Inl err)
      | Inr s \<Rightarrow>
          map_option (\<lambda>l. Inr (reviews l))
            (scrape_loop fuel (loop_body (process_block_app e c s) c s w)
               (init_locals e (cfg_prior c))))"

text \<open>
  trustpilot_scraper.py computes the cutoff and the keyword lists by the same lines as
  the dupefix scraper (lines 129 and 153-162); its \<open>for\<close> loop over the cards of one
  page starts from \<open>page_added = 0\<close>.
\<close>

definition prepare_base :: "env \<Rightarrow> config \<Rightarrow> prepared" where
  "prepare_base e c = prepare_dupefix e c"

definition process_page_base ::
  "env \<Rightarrow> config \<Rightarrow> string \<Rightarrow> base_locals \<Rightarrow> block list \<Rightarrow> base_locals" where
  "process_page_base e c url l blocks =
     foldl (process_block_base e c (prepare_base e c) url) (l\<lparr>base_page_added := 0\<rparr>) blocks"

section \<open>The page signature\<close>

text \<open>
  The signature the dupefix scraper computes for a page of records: the value of
  \<open>page_signature\<close> after the records were processed.
\<close>

definition page_signature_dupefix :: "env \<Rightarrow> config \<Rightarrow> prepared \<Rightarrow> locals \<Rightarrow> block list \<Rightarrow> string list" where
  "page_signature_dupefix e c s l blocks =
     take 20 (page_links_for_signature (process_page (process_block_dupefix e c s) s l blocks))"

text \<open>
  The signature as the specification words it (section 4.4): the first 20 canonical links
  in extraction order, with an empty entry at the place of a record without a link.
\<close>

definition signature_spec :: "block list \<Rightarrow> string list" where
  "signature_spec blocks = take 20 (map (\<lambda>b. canonical_link (b_permalink b)) blocks)"

text \<open>What the code computes, in closed form: records without a link leave no entry.\<close>

definition linked_signature :: "block list \<Rightarrow> string list" where
  "linked_signature blocks =
     take 20 (map canonical_link (filter truthy_str (map b_permalink blocks)))"

section \<open>Concrete inputs\<close>

text \<open>
  An environment for evaluating the scrapers on concrete pages: four dates with their
  midnight timestamps, the session starting on 2024-06-15 at noon, and an injective
  stand-in for the digest.
\<close>

definition test_strptime :: "string \<Rightarrow> int option" where
  "test_strptime s =
     (if s = ''2020-01-01'' then Some 1577836800000000
      else if s = ''2024-01-01'' then Some 1704067200000000
      else if s = ''2024-06-01'' then Some 1717200000000000
      else if s = ''2024-12-31'' then Some 1735603200000000
      else None)"

definition test_strftime :: "int \<Rightarrow> string" where
  "test_strftime t =
     (if t = 1577836800000000 then ''2020-01-01''
      else if t = 1704067200000000 then ''2024-01-01''
      else if t = 1717200000000000 then ''2024-06-01''
      else if t = 1735603200000000 then ''2024-12-31''
      else [])"

definition test_env :: env where
  "test_env = \<lparr>sha256_hex = (\<lambda>s. s), strptime = test_strptime, strftime = test_strftime,
                now = 1718452800000000\<rparr>"

definition old_block :: block where
  "old_block = \<lparr>b_reviewer = ''Ann'', b_text = ''Slow refund'',
                 b_permalink = Some ''https://x/reviews/1'',
                 b_time = Some ''2020-01-01T10:00:00.000Z''\<rparr>"

definition recent_block :: block where
  "recent_block = \<lparr>b_reviewer = ''Bob'', b_text = ''Rude staff'',
                    b_permalink = Some ''https://x/reviews/2'',
                    b_time = Some ''2024-06-01T08:00:00.000Z''\<rparr>"

definition recent_refund_block :: block where
  "recent_refund_block = \<lparr>b_reviewer = ''Bob'', b_text = ''Refund refused'',
                           b_permalink = Some ''https://x/reviews/2'',
                           b_time = Some ''2024-06-01T08:00:00.000Z''\<rparr>"

definition empty_text_block :: block where
  "empty_text_block = \<lparr>b_reviewer = ''Cy'', b_text = [],
                        b_permalink = Some ''https://x/reviews/3'',
                        b_time = Some ''2024-06-01T09:00:00.000Z''\<rparr>"

definition linkless_block :: block where
  "linkless_block = \<lparr>b_reviewer = ''Dee'', b_text = ''No link here'',
                      b_permalink = None, b_time = None\<rparr>"

definition cfg_all_pages :: config where
  "cfg_all_pages = \<lparr>cfg_mode = 1, cfg_max_pages = None, cfg_months = None, cfg_keywords = [],
                     cfg_start_date = None, cfg_end_date = None, cfg_prior = []\<rparr>"

definition cfg_one_month :: config where
  "cfg_one_month = \<lparr>cfg_mode = 2, cfg_max_pages = None, cfg_months = Some 1, cfg_keywords = [],
                     cfg_start_date = None, cfg_end_date = None, cfg_prior = []\<rparr>"

definition cfg_refund :: config where
  "cfg_refund = \<lparr>cfg_mode = 3, cfg_max_pages = None, cfg_months = None,
                  cfg_keywords = [''refund''],
                  cfg_start_date = None, cfg_end_date = None, cfg_prior = []\<rparr>"

definition cfg_year_2024 :: config where
  "cfg_year_2024 = \<lparr>cfg_mode = 4, cfg_max_pages = None, cfg_months = None, cfg_keywords = [],
                     cfg_start_date = Some ''2024-01-01'', cfg_end_date = Some ''2024-12-31'',
                     cfg_prior = []\<rparr>"

text \<open>A site that answers every page number with the same page of one review of 2020.\<close>

definition same_page_world :: world where
  "same_page_world = \<lparr>get_ok = (\<lambda>p a. True), articles = (\<lambda>p. [old_block])\<rparr>"

text \<open>A site with the given cards on page 1 and none on any other page.\<close>

definition one_page_world :: "block list \<Rightarrow> world" where
  "one_page_world blocks =
     \<lparr>get_ok = (\<lambda>p a. True), articles = (\<lambda>p. if p = 1 then blocks else [])\<rparr>"

text \<open>A site no page of which can be loaded, and a site whose pages load without cards.\<close>

definition dead_world :: world where
  "dead_world = \<lparr>get_ok = (\<lambda>p a. False), articles = (\<lambda>p. [])\<rparr>"

definition empty_world :: world where
  "empty_world = \<lparr>get_ok = (\<lambda>p a. True), articles = (\<lambda>p. [])\<rparr>"

definition base_start :: base_locals where
  "base_start = \<lparr>base_reviews = [], seen_links = {}, base_page_added = 0\<rparr>"

section \<open>The page signature along a run\<close>

text \<open>
  The signature sortingapp/app/scrape_reviews.py computes for a page, and its closed
  form: a card whose text is empty or ends with "See more" is left before its link is
  read (line 291), so it leaves no entry either.
\<close>

definition page_signature_app :: "env \<Rightarrow> config \<Rightarrow> prepared \<Rightarrow> locals \<Rightarrow> block list \<Rightarrow> string list" where
  "page_signature_app e c s l blocks =
     take 20 (page_links_for_signature (process_page (process_block_app e c s) s l blocks))"

definition skipped_app :: "block \<Rightarrow> bool" where
  "skipped_app b = (b_text b = [] \<or> endswith (b_text b) ''See more'')"

definition app_signature :: "block list \<Rightarrow> string list" where
  "app_signature blocks =
     take 20 (map canonical_link
                (filter truthy_str (map b_permalink (filter (\<lambda>b. \<not> skipped_app b) blocks))))"

text \<open>A page on which cards are found: it loads within the attempts and has a card.\<close>

definition page_has_cards :: "world \<Rightarrow> int \<Rightarrow> bool" where
  "page_has_cards w p = (fst (load_page (get_ok w p)) \<and> articles w p \<noteq> [])"

text \<open>
  The signature of the most recent page with cards among pages 1 to \<open>n\<close>, for a
  signature function \<open>sig\<close>; \<open>None\<close> when there is no such page.
\<close>

fun stored_signature :: "(block list \<Rightarrow> string list) \<Rightarrow> world \<Rightarrow> nat \<Rightarrow> string list option" where
  "stored_signature sig w 0 = None"
| "stored_signature sig w (Suc n) =
     (if page_has_cards w (int (Suc n)) then Some (sig (articles w (int (Suc n))))
      else stored_signature sig w n)"

text \<open>
  The variables after \<open>n\<close> iterations of the loop none of which left it (\<open>None\<close> when
  one of them did), and the variables an iteration ends with, whether it leaves or not.
\<close>

fun after_iterations :: "nat \<Rightarrow> (locals \<Rightarrow> control) \<Rightarrow> locals \<Rightarrow> locals option" where
  "after_iterations 0 body l = Some l"
| "after_iterations (Suc n) body l =
     (case body l of Break l' \<Rightarrow> None | Continue l' \<Rightarrow> after_iterations n body l')"

fun result_locals :: "control \<Rightarrow> locals" where
  "result_locals (Break l) = l"
| "result_locals (Continue l) = l"

text \<open>A site with the same card on pages 1 and 3 and no card on any other page.\<close>

definition gap_world :: world where
  "gap_world = \<lparr>get_ok = (\<lambda>p a. True),
                 articles = (\<lambda>p. if p = 1 \<or> p = 3 then [old_block] else [])\<rparr>"

text \<open>A teaser card, and a record that differs from \<open>dup_a\<close> in case, spacing and query.\<close>

definition teaser_block :: block where
  "teaser_block = \<lparr>b_reviewer = ''Eve'', b_text = ''Long story... See more'',
                    b_permalink = Some ''https://x/reviews/4'',
                    b_time = Some ''2024-06-01T09:00:00.000Z''\<rparr>"

definition dup_c :: dict where
  "dup_c = [''reviewer'' \<mapsto> ''  ANN'', ''date'' \<mapsto> ''2024-01-02 '',
            ''link'' \<mapsto> ''https://x/reviews/1?utm=c'', ''text'' \<mapsto> '' slow   REFUND  '']"

section \<open>Canonical links\<close>

lemma dropWhile_rev_snoc:
  "\<not> P x \<Longrightarrow> rev (dropWhile P (rev (x # xs))) = x # rev (dropWhile P (rev xs))"
  by (simp add: dropWhile_append3)

lemma strip_no_leading_space: "dropWhile is_space (strip s) = strip s"
proof (cases "dropWhile is_space s")
  case Nil
  show ?thesis unfolding strip_def Nil by simp
next
  case (Cons x xs)
  then have "\<not> is_space x"
    by (metis hd_dropWhile list.sel(1) list.distinct(1))
  then have "strip s = x # rev (dropWhile is_space (rev xs))"
    unfolding strip_def Cons by (rule dropWhile_rev_snoc)
  with \<open>\<not> is_space x\<close> show ?thesis by simp
qed

lemma strip_idem: "strip (strip s) = strip s"
proof -
  have "strip (strip s) = rev (dropWhile is_space (rev (strip s)))"
    by (simp add: strip_def [of "strip s"] strip_no_leading_space)
  also have "\<dots> = strip s"
    by (simp add: strip_def dropWhile_idem)
  finally show ?thesis .
qed

lemma set_strip: "set (strip s) \<subseteq> set s"
proof -
  have "set (strip s) \<subseteq> set (dropWhile is_space s)"
    unfolding strip_def using set_dropWhileD by fastforce
  also have "\<dots> \<subseteq> set s"
    using set_dropWhileD by fastforce
  finally show ?thesis .
qed

lemma split_first_absent: "c \<notin> set s \<Longrightarrow> split_first c s = s"
  by (simp add: split_first_def takeWhile_eq_all_conv) blast

lemma split_first_free: "c \<notin> set (split_first c s)"
  unfolding split_first_def by (metis (mono_tags, lifting) set_takeWhileD)

lemma split_first_subset: "set (split_first c s) \<subseteq> set s"
  unfolding split_first_def by (meson set_takeWhileD subsetI)

lemma canonical_link_chars:
  "CHR ''#'' \<notin> set (canonical_link x) \<and> CHR ''?'' \<notin> set (canonical_link x)"
proof (cases x)
  case None
  then show ?thesis by (simp add: canonical_link_def)
next
  case (Some h)
  let ?a = "split_first (CHR ''#'') h"
  let ?b = "split_first (CHR ''?'') ?a"
  have a: "CHR ''#'' \<notin> set ?a" by (rule split_first_free)
  have "set ?b \<subseteq> set ?a" by (rule split_first_subset)
  with a have b1: "CHR ''#'' \<notin> set ?b" by blast
  have b2: "CHR ''?'' \<notin> set ?b" by (rule split_first_free)
  have "set (strip ?b) \<subseteq> set ?b" by (rule set_strip)
  with b1 b2 have "CHR ''#'' \<notin> set (strip ?b) \<and> CHR ''?'' \<notin> set (strip ?b)" by blast
  with Some show ?thesis by (simp add: canonical_link_def Let_def)
qed

lemma canonical_link_stripped: "strip (canonical_link x) = canonical_link x"
proof (cases x)
  case None
  show ?thesis unfolding None canonical_link_def strip_def by simp
next
  case (Some h)
  show ?thesis
  proof (cases "h = []")
    case True
    show ?thesis unfolding Some True canonical_link_def strip_def by simp
  next
    case False
    then show ?thesis by (simp add: Some canonical_link_def Let_def strip_idem)
  qed
qed

text \<open>
  Claim C9. Link canonicalisation is idempotent on every input, the empty string and the
  absent link \<open>None\<close> included: canonicalising the canonical link of \<open>x\<close> gives it back.
\<close>

theorem canonical_link_idempotent:
  "canonical_link (Some (canonical_link x)) = canonical_link x"
proof (cases "canonical_link x = []")
  case True
  then show ?thesis by (simp add: canonical_link_def)
next
  case False
  have "split_first (CHR ''#'') (canonical_link x) = canonical_link x"
    using canonical_link_chars [of x] by (simp add: split_first_absent)
  moreover have "split_first (CHR ''?'') (canonical_link x) = canonical_link x"
    using canonical_link_chars [of x] by (simp add: split_first_absent)
  ultimately show ?thesis
    using False canonical_link_stripped [of x]
    by (simp add: canonical_link_def [of "Some (canonical_link x)"] Let_def)
qed

section \<open>Identity keys\<close>

lemma encode_key_inj: "inj encode_key"
proof (rule injI)
  fix a b :: record_key
  assume "encode_key a = encode_key b"
  then show "a = b" by (cases a; cases b) simp_all
qed

text \<open>
  Claim C6. \<open>stable_review_key\<close> returns the link key of the canonical link when that
  is non-empty and otherwise the hash key of the SHA-256 digest of the three trimmed fields
  joined by \<open>|\<close>; the two variants are written as strings with distinct prefixes, so
  the string determines the variant and its content. The key is a function of its four
  inputs alone.
\<close>

theorem stable_review_key_spec:
  "stable_review_key sha reviewer date_str link text
     = encode_key (key_spec sha reviewer date_str link text)
   \<and> inj encode_key"
  by (simp add: stable_review_key_def key_spec_def Let_def encode_key_inj)

section \<open>Offline deduplication\<close>

lemma dedupe_loop_keep: "snd (dedupe_loop seen unique rs) = unique @ keep seen rs"
  by (induction rs arbitrary: seen unique) (simp_all add: Let_def)

lemma keep_index:
  "keep seen rs =
     map (\<lambda>i. rs ! i)
       (filter (\<lambda>i. record_key_of (rs ! i) \<notin> seen \<union> record_key_of ` set (take i rs))
          [0..<length rs])"
proof (induction rs arbitrary: seen)
  case Nil
  show ?case by simp
next
  case (Cons r rs)
  have upt: "[0..<length (r # rs)] = 0 # map Suc [0..<length rs]"
    by (metis length_Cons map_Suc_upt upt_conv_Cons zero_less_Suc)
  show ?case
  proof (cases "record_key_of r \<in> seen")
    case True
    then have same: "(k \<notin> seen \<and> k \<noteq> record_key_of r \<and> Q) = (k \<notin> seen \<and> Q)" for k Q
      by blast
    show ?thesis
      unfolding upt using True Cons.IH [of seen]
      by (simp add: filter_map comp_def same)
  next
    case False
    show ?thesis
      unfolding upt using False Cons.IH [of "insert (record_key_of r) seen"]
      by (simp add: filter_map comp_def conj_left_commute)
  qed
qed

lemma keep_subseq: "subseq (keep seen rs) rs"
  by (induction rs arbitrary: seen) auto

lemma keep_fresh: "r \<in> set (keep seen rs) \<Longrightarrow> record_key_of r \<notin> seen"
  by (induction rs arbitrary: seen) (auto split: if_splits)

lemma keep_distinct: "distinct (map record_key_of (keep seen rs))"
  by (induction rs arbitrary: seen) (auto dest: keep_fresh)

lemma keep_id:
  "distinct (map record_key_of rs) \<Longrightarrow> record_key_of ` set rs \<inter> seen = {}
     \<Longrightarrow> keep seen rs = rs"
  by (induction rs arbitrary: seen) auto

lemma text_differs_key_differs:
  "normalize_whitespace (Some (dict_get a ''text'' []))
     \<noteq> normalize_whitespace (Some (dict_get b ''text'' []))
   \<Longrightarrow> record_key_of a \<noteq> record_key_of b"
  by (simp add: record_key_of_def review_key_def Let_def)

lemma is_space_lower_char: "is_space (lower_char c) = is_space c"
  by (auto simp add: is_space_def lower_char_def Let_def)

lemma lower_char_blank: "lower_char (CHR '' '') = CHR '' ''"
  by (simp add: lower_char_def)

lemma lower_char_idem: "lower_char (lower_char c) = lower_char c"
  by (auto simp add: lower_char_def Let_def)

lemma lower_char_upper_char: "lower_char (upper_char c) = lower_char c"
  by (auto simp add: lower_char_def upper_char_def Let_def)

lemma dropWhile_space_lower:
  "dropWhile is_space (lower s) = lower (dropWhile is_space s)"
  by (simp add: lower_def dropWhile_map comp_def is_space_lower_char)

lemma strip_lower: "strip (lower s) = lower (strip s)"
proof -
  have "rev (lower s) = lower (rev s)" for s by (simp add: lower_def rev_map)
  then show ?thesis
    by (simp add: strip_def dropWhile_space_lower)
qed

lemma collapse_ws_lower: "collapse_ws (lower s) = lower (collapse_ws s)"
proof (induction s rule: collapse_ws.induct)
  case 1
  show ?case by (simp add: lower_def)
next
  case (2 c cs)
  show ?case
  proof (cases "is_space c")
    case True
    have "collapse_ws (lower (c # cs))
            = CHR '' '' # collapse_ws (dropWhile is_space (lower cs))"
      using True by (simp add: lower_def is_space_lower_char)
    also have "\<dots> = CHR '' '' # lower (collapse_ws (dropWhile is_space cs))"
      using 2(1) [OF True] by (simp add: dropWhile_space_lower)
    also have "\<dots> = lower (collapse_ws (c # cs))"
      using True by (simp add: lower_def lower_char_blank)
    finally show ?thesis .
  next
    case False
    have "collapse_ws (lower (c # cs)) = lower_char c # collapse_ws (lower cs)"
      using False by (simp add: lower_def is_space_lower_char)
    also have "\<dots> = lower (collapse_ws (c # cs))"
      using False 2(2) [OF False] by (simp add: lower_def)
    finally show ?thesis .
  qed
qed

lemma normalize_whitespace_lower:
  "normalize_whitespace (Some t) = collapse_ws (strip (lower t))"
  by (simp add: normalize_whitespace_def strip_lower collapse_ws_lower)

lemma normalize_whitespace_case:
  "lower s = lower t \<Longrightarrow> normalize_whitespace (Some s) = normalize_whitespace (Some t)"
  by (simp add: normalize_whitespace_lower)

lemma dropWhile_all: "list_all P u \<Longrightarrow> dropWhile P (u @ t) = dropWhile P t"
  by (induction u) simp_all

lemma dropWhile_some: "\<not> list_all P u \<Longrightarrow> dropWhile P (u @ t) = dropWhile P u @ t"
  by (induction u) simp_all

lemma dropWhile_all_Nil: "list_all P u \<Longrightarrow> dropWhile P u = []"
  by (induction u) simp_all

lemma strip_surrounding:
  assumes "list_all is_space u" and "list_all is_space v"
  shows "strip (u @ t @ v) = strip t"
proof -
  have v: "list_all is_space (rev v)" using assms(2) by (simp add: list_all_iff)
  show ?thesis
  proof (cases "list_all is_space t")
    case True
    then have "list_all is_space (t @ v)" using assms(2) by simp
    then have 1: "dropWhile is_space (t @ v) = []" by (rule dropWhile_all_Nil)
    have 2: "dropWhile is_space t = []" using True by (rule dropWhile_all_Nil)
    have 3: "dropWhile is_space (u @ t @ v) = dropWhile is_space (t @ v)"
      by (rule dropWhile_all [OF assms(1)])
    show ?thesis unfolding strip_def 3 1 2 ..
  next
    case False
    then have 1: "dropWhile is_space (t @ v) = dropWhile is_space t @ v"
      by (rule dropWhile_some)
    have 3: "dropWhile is_space (u @ t @ v) = dropWhile is_space (t @ v)"
      by (rule dropWhile_all [OF assms(1)])
    show ?thesis
      unfolding strip_def 3 1 by (simp add: dropWhile_all [OF v])
  qed
qed

lemma collapse_ws_run:
  assumes "ws \<noteq> []" and "list_all is_space ws"
  shows "collapse_ws (ws @ b) = CHR '' '' # collapse_ws (dropWhile is_space b)"
proof -
  from assms obtain w ws' where ws: "ws = w # ws'" and w: "is_space w"
    and ws': "list_all is_space ws'"
    by (cases ws) auto
  show ?thesis
    using w by (simp add: ws dropWhile_all [OF ws'])
qed

lemma collapse_ws_inner_run:
  assumes "ws \<noteq> []" and "list_all is_space ws" and "ws' \<noteq> []" and "list_all is_space ws'"
  shows "collapse_ws (a @ ws @ b) = collapse_ws (a @ ws' @ b)"
proof (induction a rule: collapse_ws.induct)
  case 1
  show ?case
    by (simp add: collapse_ws_run [OF assms(1,2)] collapse_ws_run [OF assms(3,4)])
next
  case (2 c cs)
  show ?case
  proof (cases "is_space c")
    case False
    with 2(2) show ?thesis by simp
  next
    case True
    show ?thesis
    proof (cases "list_all is_space cs")
      case all: True
      have "dropWhile is_space (cs @ ws @ b) = dropWhile is_space b"
        by (simp add: dropWhile_all [OF all] dropWhile_all [OF assms(2)])
      moreover have "dropWhile is_space (cs @ ws' @ b) = dropWhile is_space b"
        by (simp add: dropWhile_all [OF all] dropWhile_all [OF assms(4)])
      ultimately show ?thesis using True by simp
    next
      case False
      then have "dropWhile is_space (cs @ ys) = dropWhile is_space cs @ ys" for ys
        by (rule dropWhile_some)
      then show ?thesis using True 2(1) [OF True] by simp
    qed
  qed
qed

lemma strip_inner_run:
  assumes "ws \<noteq> []" and "list_all is_space ws" and "ws' \<noteq> []" and "list_all is_space ws'"
  shows "strip (a @ ws @ b) = strip (a @ ws' @ b)
         \<or> (\<exists>x y. strip (a @ ws @ b) = x @ ws @ y \<and> strip (a @ ws' @ b) = x @ ws' @ y)"
proof (cases "list_all is_space a")
  case True
  have "dropWhile is_space (a @ ws @ b) = dropWhile is_space b"
    by (simp add: dropWhile_all [OF True] dropWhile_all [OF assms(2)])
  moreover have "dropWhile is_space (a @ ws' @ b) = dropWhile is_space b"
    by (simp add: dropWhile_all [OF True] dropWhile_all [OF assms(4)])
  ultimately show ?thesis by (simp add: strip_def)
next
  case False
  define a' where "a' = dropWhile is_space a"
  have front: "dropWhile is_space (a @ ys) = a' @ ys" for ys
    unfolding a'_def using False by (rule dropWhile_some)
  show ?thesis
  proof (cases "list_all is_space b")
    case True
    then have rb: "list_all is_space (rev b)" by (simp add: list_all_iff)
    have r1: "list_all is_space (rev ws)" using assms(2) by (simp add: list_all_iff)
    have r2: "list_all is_space (rev ws')" using assms(4) by (simp add: list_all_iff)
    have "strip (a @ ws @ b) = rev (dropWhile is_space (rev a'))"
      by (simp add: strip_def front dropWhile_all [OF rb] dropWhile_all [OF r1])
    moreover have "strip (a @ ws' @ b) = rev (dropWhile is_space (rev a'))"
      by (simp add: strip_def front dropWhile_all [OF rb] dropWhile_all [OF r2])
    ultimately show ?thesis by simp
  next
    case False
    then have "\<not> list_all is_space (rev b)" by (simp add: list_all_iff)
    then have rear: "dropWhile is_space (rev b @ ys) = dropWhile is_space (rev b) @ ys" for ys
      by (rule dropWhile_some)
    have "strip (a @ ws @ b) = a' @ ws @ rev (dropWhile is_space (rev b))"
      by (simp add: strip_def front rear)
    moreover have "strip (a @ ws' @ b) = a' @ ws' @ rev (dropWhile is_space (rev b))"
      by (simp add: strip_def front rear)
    ultimately show ?thesis by blast
  qed
qed

lemma normalize_whitespace_inner_run:
  assumes "ws \<noteq> []" and "list_all is_space ws" and "ws' \<noteq> []" and "list_all is_space ws'"
  shows "normalize_whitespace (Some (a @ ws @ b)) = normalize_whitespace (Some (a @ ws' @ b))"
proof -
  have "collapse_ws (strip (a @ ws @ b)) = collapse_ws (strip (a @ ws' @ b))"
    using strip_inner_run [OF assms, of a b] collapse_ws_inner_run [OF assms]
    by auto
  then show ?thesis by (simp add: normalize_whitespace_def)
qed

lemma normalize_whitespace_surrounding:
  "list_all is_space u \<Longrightarrow> list_all is_space v
     \<Longrightarrow> normalize_whitespace (Some (u @ t @ v)) = normalize_whitespace (Some t)"
  by (simp add: normalize_whitespace_def strip_surrounding)


lemma filter_dropWhile_space:
  "filter (\<lambda>c. \<not> is_space c) (dropWhile is_space s) = filter (\<lambda>c. \<not> is_space c) s"
  by (induction s) simp_all

lemma filter_strip: "filter (\<lambda>c. \<not> is_space c) (strip s) = filter (\<lambda>c. \<not> is_space c) s"
proof -
  have "filter (\<lambda>c. \<not> is_space c) (strip s)
          = rev (filter (\<lambda>c. \<not> is_space c) (dropWhile is_space (rev (dropWhile is_space s))))"
    by (simp add: strip_def rev_filter)
  also have "\<dots> = rev (filter (\<lambda>c. \<not> is_space c) (rev (dropWhile is_space s)))"
    by (simp only: filter_dropWhile_space)
  also have "\<dots> = filter (\<lambda>c. \<not> is_space c) (dropWhile is_space s)"
    by (simp add: rev_filter)
  finally show ?thesis by (simp only: filter_dropWhile_space)
qed

lemma is_space_blank: "is_space (CHR '' '')"
  by (simp add: is_space_def)

lemma filter_collapse_ws:
  "filter (\<lambda>c. \<not> is_space c) (collapse_ws s) = filter (\<lambda>c. \<not> is_space c) s"
proof (induction s rule: collapse_ws.induct)
  case 1
  show ?case by simp
next
  case (2 c cs)
  show ?case
  proof (cases "is_space c")
    case True
    with 2(1) show ?thesis by (simp add: is_space_blank filter_dropWhile_space)
  next
    case False
    with 2(2) show ?thesis by simp
  qed
qed

lemma filter_lower:
  "filter (\<lambda>c. \<not> is_space c) (lower s) = lower (filter (\<lambda>c. \<not> is_space c) s)"
  by (simp add: lower_def filter_map comp_def is_space_lower_char)

text \<open>Normalisation changes whitespace and case only: the other characters stay in order.\<close>

lemma normalize_whitespace_content:
  "filter (\<lambda>c. \<not> is_space c) (normalize_whitespace (Some t))
     = lower (filter (\<lambda>c. \<not> is_space c) t)"
  by (simp add: normalize_whitespace_def filter_lower filter_collapse_ws filter_strip)

text \<open>The link is cut at the first question mark and trimmed.\<close>

lemma canonical_link_dedupe_query:
  assumes "CHR ''?'' \<notin> set l"
  shows "canonical_link_dedupe (l @ CHR ''?'' # q) = strip l"
proof -
  have "takeWhile (\<lambda>c. c \<noteq> CHR ''?'') l = l"
    using assms by (simp add: takeWhile_eq_all_conv) blast
  then have "split_first (CHR ''?'') (l @ CHR ''?'' # q) = l"
    by (simp add: split_first_def takeWhile_tail)
  then show ?thesis by (simp add: canonical_link_dedupe_def)
qed

lemma canonical_link_dedupe_plain:
  "CHR ''?'' \<notin> set l \<Longrightarrow> canonical_link_dedupe l = strip l"
  by (cases "l = []")
     (simp_all add: canonical_link_dedupe_def split_first_absent strip_def)

lemma keep_pair:
  "keep {} [a, b] = (if record_key_of a = record_key_of b then [a] else [a, b])"
  by simp

text \<open>
  Claim C10. \<open>_dedupe_records\<close> returns exactly the records at the positions whose
  four-field key does not occur at an earlier position, in input order: it is a
  subsequence of the input, its keys are pairwise distinct, and a second pass changes
  nothing. Of two records the second is dropped exactly when the keys agree. The key is
  the normalised reviewer, date and text and the link cut at its query string.
  Normalisation ignores case, ignores whitespace at both ends, takes any two non-empty
  runs of whitespace at the same place for the same, and keeps every other character in
  order, in lower case; so two records whose normalised texts differ are both kept,
  whatever their links.
\<close>

theorem dedupe_records_first_occurrences:
  "dedupe_records rs = first_occurrences rs
   \<and> subseq (dedupe_records rs) rs
   \<and> distinct (map record_key_of (dedupe_records rs))
   \<and> dedupe_records (dedupe_records rs) = dedupe_records rs
   \<and> dedupe_records [a, b] = (if record_key_of a = record_key_of b then [a] else [a, b])
   \<and> record_key_of r
        = (normalize_whitespace (Some (dict_get r ''reviewer'' [])),
           normalize_whitespace (Some (dict_get r ''date'' [])),
           canonical_link_dedupe (dict_get r ''link'' []),
           normalize_whitespace (Some (dict_get r ''text'' [])))
   \<and> (lower s = lower t \<longrightarrow> normalize_whitespace (Some s) = normalize_whitespace (Some t))
   \<and> (list_all is_space u \<and> list_all is_space v
        \<longrightarrow> normalize_whitespace (Some (u @ t @ v)) = normalize_whitespace (Some t))
   \<and> (ws \<noteq> [] \<and> list_all is_space ws \<and> ws' \<noteq> [] \<and> list_all is_space ws'
        \<longrightarrow> normalize_whitespace (Some (x @ ws @ y)) = normalize_whitespace (Some (x @ ws' @ y)))
   \<and> filter (\<lambda>c. \<not> is_space c) (normalize_whitespace (Some t))
        = lower (filter (\<lambda>c. \<not> is_space c) t)
   \<and> (CHR ''?'' \<notin> set l
        \<longrightarrow> canonical_link_dedupe (l @ CHR ''?'' # q) = strip l
            \<and> canonical_link_dedupe l = strip l)
   \<and> (normalize_whitespace (Some (dict_get a ''text'' []))
         \<noteq> normalize_whitespace (Some (dict_get b ''text'' []))
       \<longrightarrow> dedupe_records [a, b] = [a, b])"
proof -
  have d: "dedupe_records xs = keep {} xs" for xs
    by (simp add: dedupe_records_def dedupe_loop_keep)
  have 1: "dedupe_records rs = first_occurrences rs"
    unfolding d first_occurrences_def by (subst keep_index) simp
  have 2: "subseq (dedupe_records rs) rs"
    unfolding d by (rule keep_subseq)
  have 3: "distinct (map record_key_of (dedupe_records rs))"
    unfolding d by (rule keep_distinct)
  have 4: "dedupe_records (dedupe_records rs) = dedupe_records rs"
    unfolding d by (rule keep_id) (simp_all add: keep_distinct)
  have 5: "dedupe_records [a, b] = (if record_key_of a = record_key_of b then [a] else [a, b])"
    unfolding d by (rule keep_pair)
  have 6: "record_key_of r
        = (normalize_whitespace (Some (dict_get r ''reviewer'' [])),
           normalize_whitespace (Some (dict_get r ''date'' [])),
           canonical_link_dedupe (dict_get r ''link'' []),
           normalize_whitespace (Some (dict_get r ''text'' [])))"
    by (simp add: record_key_of_def review_key_def Let_def)
  have 7: "normalize_whitespace (Some s) = normalize_whitespace (Some t)" if "lower s = lower t"
    using that by (rule normalize_whitespace_case)
  have 8: "normalize_whitespace (Some (u @ t @ v)) = normalize_whitespace (Some t)"
    if "list_all is_space u \<and> list_all is_space v"
    using that by (simp add: normalize_whitespace_surrounding)
  have 9: "normalize_whitespace (Some (x @ ws @ y)) = normalize_whitespace (Some (x @ ws' @ y))"
    if "ws \<noteq> [] \<and> list_all is_space ws \<and> ws' \<noteq> [] \<and> list_all is_space ws'"
    using that by (simp add: normalize_whitespace_inner_run)
  have 10: "filter (\<lambda>c. \<not> is_space c) (normalize_whitespace (Some t))
        = lower (filter (\<lambda>c. \<not> is_space c) t)"
    by (rule normalize_whitespace_content)
  have 11: "canonical_link_dedupe (l @ CHR ''?'' # q) = strip l \<and> canonical_link_dedupe l = strip l"
    if "CHR ''?'' \<notin> set l"
    using that by (simp add: canonical_link_dedupe_query canonical_link_dedupe_plain)
  have 12: "dedupe_records [a, b] = [a, b]"
    if "normalize_whitespace (Some (dict_get a ''text'' []))
          \<noteq> normalize_whitespace (Some (dict_get b ''text'' []))"
    using text_differs_key_differs [OF that] unfolding d by simp
  from 1 2 3 4 5 6 7 8 9 10 11 12 show ?thesis by blast
qed

theorem dedupe_records_witness:
  "record_key_of dup_a = (''ann'', ''2024-01-02'', ''https://x/reviews/1'', ''slow refund'')
   \<and> record_key_of dup_c = (''ann'', ''2024-01-02'', ''https://x/reviews/1'', ''slow refund'')
   \<and> dedupe_records [dup_a, dup_c] = [dup_a]
   \<and> normalize_whitespace (Some (dict_get dup_a ''text'' []))
       \<noteq> normalize_whitespace (Some (dict_get dup_b ''text'' []))
   \<and> canonical_link_dedupe (dict_get dup_a ''link'' [])
       = canonical_link_dedupe (dict_get dup_b ''link'' [])
   \<and> dedupe_records [dup_a, dup_b] = [dup_a, dup_b]
   \<and> dedupe_records [dup_a, dup_c, dup_b, dup_a] = [dup_a, dup_b]
   \<and> lower ''Slow  refund'' = lower ''SLOW  Refund''
   \<and> normalize_whitespace (Some ''Slow  refund'') = normalize_whitespace (Some ''SLOW  Refund'')
   \<and> normalize_whitespace (Some (''  '' @ ''SLOW  Refund'' @ '' ''))
       = normalize_whitespace (Some ''SLOW  Refund'')
   \<and> normalize_whitespace (Some (''Slow'' @ ''   '' @ ''refund''))
       = normalize_whitespace (Some (''Slow'' @ '' '' @ ''refund''))
   \<and> canonical_link_dedupe (''https://x/reviews/1#top'' @ CHR ''?'' # ''utm=a'')
       = ''https://x/reviews/1#top''"
proof -
  have ka: "record_key_of dup_a
              = (''ann'', ''2024-01-02'', ''https://x/reviews/1'', ''slow refund'')"
    by code_simp
  have kc: "record_key_of dup_c
              = (''ann'', ''2024-01-02'', ''https://x/reviews/1'', ''slow refund'')"
    by code_simp
  have t: "normalize_whitespace (Some (dict_get dup_a ''text'' []))
             \<noteq> normalize_whitespace (Some (dict_get dup_b ''text'' []))"
    by code_simp
  have lk: "canonical_link_dedupe (dict_get dup_a ''link'' [])
             = canonical_link_dedupe (dict_get dup_b ''link'' [])"
    by code_simp
  have kb: "record_key_of dup_a \<noteq> record_key_of dup_b"
    using t by (rule text_differs_key_differs)
  have lo: "lower ''Slow  refund'' = lower ''SLOW  Refund''" by code_simp
  have sp: "list_all is_space ''  '' \<and> list_all is_space '' ''" by code_simp
  have run: "''   '' \<noteq> [] \<and> list_all is_space ''   ''
               \<and> '' '' \<noteq> [] \<and> list_all is_space '' ''"
    by code_simp
  have q: "CHR ''?'' \<notin> set ''https://x/reviews/1#top''" by code_simp
  have st: "strip ''https://x/reviews/1#top'' = ''https://x/reviews/1#top''" by code_simp
  note pair_c = dedupe_records_first_occurrences
    [where rs = "[dup_a, dup_c, dup_b, dup_a]" and a = dup_a and b = dup_c and r = dup_a
       and s = "''Slow  refund''" and t = "''SLOW  Refund''" and u = "''  ''" and v = "'' ''"
       and ws = "''   ''" and ws' = "'' ''" and x = "''Slow''" and y = "''refund''"
       and l = "''https://x/reviews/1#top''" and q = "''utm=a''"]
  note pair_b = dedupe_records_first_occurrences
    [where rs = "[dup_a, dup_b]" and a = dup_a and b = dup_b and r = dup_a
       and s = "''Slow  refund''" and t = "''SLOW  Refund''" and u = "''  ''" and v = "'' ''"
       and ws = "''   ''" and ws' = "'' ''" and x = "''Slow''" and y = "''refund''"
       and l = "''https://x/reviews/1#top''" and q = "''utm=a''"]
  from pair_c have first4:
    "dedupe_records [dup_a, dup_c, dup_b, dup_a] = first_occurrences [dup_a, dup_c, dup_b, dup_a]"
    by (elim conjE) assumption
  have all4: "dedupe_records [dup_a, dup_c, dup_b, dup_a] = [dup_a, dup_b]"
    unfolding first4 using ka kc kb by (simp add: first_occurrences_def upt_rec)
  from pair_c have "dedupe_records [dup_a, dup_c]
      = (if record_key_of dup_a = record_key_of dup_c then [dup_a] else [dup_a, dup_c])"
    by (elim conjE) assumption
  then have merged: "dedupe_records [dup_a, dup_c] = [dup_a]"
    by (simp add: ka kc)
  from pair_b t have kept: "dedupe_records [dup_a, dup_b] = [dup_a, dup_b]"
    by (elim conjE) simp
  from pair_c lo have n7:
    "normalize_whitespace (Some ''Slow  refund'') = normalize_whitespace (Some ''SLOW  Refund'')"
    by (elim conjE) simp
  from pair_c sp have n8:
    "normalize_whitespace (Some (''  '' @ ''SLOW  Refund'' @ '' ''))
       = normalize_whitespace (Some ''SLOW  Refund'')"
    by (elim conjE) blast
  from pair_c run have n9:
    "normalize_whitespace (Some (''Slow'' @ ''   '' @ ''refund''))
       = normalize_whitespace (Some (''Slow'' @ '' '' @ ''refund''))"
    by (elim conjE) blast
  from pair_c q have "canonical_link_dedupe (''https://x/reviews/1#top'' @ CHR ''?'' # ''utm=a'')
       = strip ''https://x/reviews/1#top''"
    by (elim conjE) blast
  then have n11: "canonical_link_dedupe (''https://x/reviews/1#top'' @ CHR ''?'' # ''utm=a'')
       = ''https://x/reviews/1#top''"
    by (simp only: st)
  from ka kc merged t lk kept all4 lo n7 n8 n9 n11 show ?thesis
    by (intro conjI)
qed

section \<open>The keyword filter\<close>

lemma prepare_keywords_Nil: "prepare_keywords [] = ([], [])"
  by (simp add: prepare_keywords_def)

text \<open>
  Claim C2. With the AND and OR terms prepared from the keywords: when there are AND terms,
  a text passes the keyword filter exactly when every AND term occurs in it, ignoring
  case, whatever the OR terms; when there are no AND terms but OR terms, it passes exactly
  when some OR term occurs in it, ignoring case.
\<close>

theorem keyword_filter_and_or:
  assumes "prepare_keywords keywords = (kw_and, kw_or)"
  shows "(kw_and \<noteq> [] \<longrightarrow>
            keyword_filter keywords kw_and kw_or text
              = (\<forall>k \<in> set kw_and. sublist (lower k) (lower text)))
       \<and> (kw_and = [] \<and> kw_or \<noteq> [] \<longrightarrow>
            keyword_filter keywords kw_and kw_or text
              = (\<exists>k \<in> set kw_or. sublist (lower k) (lower text)))"
proof -
  have ne: "keywords \<noteq> []" if "kw_and \<noteq> [] \<or> kw_or \<noteq> []"
    using that assms prepare_keywords_Nil by auto
  show ?thesis
  proof (intro conjI impI)
    assume a: "kw_and \<noteq> []"
    with ne show "keyword_filter keywords kw_and kw_or text
              = (\<forall>k \<in> set kw_and. sublist (lower k) (lower text))"
      by (simp add: keyword_filter_def Let_def list_all_iff)
  next
    assume a: "kw_and = [] \<and> kw_or \<noteq> []"
    with ne show "keyword_filter keywords kw_and kw_or text
              = (\<exists>k \<in> set kw_or. sublist (lower k) (lower text))"
      by (simp add: keyword_filter_def Let_def list_ex_iff)
  qed
qed

lemma prepare_refund_slow_rude: "prepare_keywords [''+refund'', ''slow'', ''rude''] = ([''refund''], [''slow'', ''rude''])"
  by code_simp
lemma prepare_slow_rude: "prepare_keywords [''slow'', ''rude''] = ([], [''slow'', ''rude''])"
  by code_simp

theorem keyword_filter_witness:
  "prepare_keywords [''+refund'', ''slow'', ''rude''] = ([''refund''], [''slow'', ''rude''])
   \<and> keyword_filter [''+refund'', ''slow'', ''rude''] [''refund''] [''slow'', ''rude'']
        ''Refund only, nothing else''
   \<and> \<not> keyword_filter [''+refund'', ''slow'', ''rude''] [''refund''] [''slow'', ''rude'']
        ''Slow and rude''
   \<and> prepare_keywords [''slow'', ''rude''] = ([], [''slow'', ''rude''])
   \<and> keyword_filter [''slow'', ''rude''] [] [''slow'', ''rude''] ''Rude staff''
   \<and> \<not> keyword_filter [''slow'', ''rude''] [] [''slow'', ''rude''] ''Refund only''"
proof -
  have s1: "sublist (lower ''refund'') (lower ''Refund only, nothing else'')" by code_simp
  have s2: "\<not> sublist (lower ''refund'') (lower ''Slow and rude'')" by code_simp
  have s3: "sublist (lower ''rude'') (lower ''Rude staff'')" by code_simp
  have s4: "\<not> sublist (lower ''slow'') (lower ''Refund only'')" by code_simp
  have s5: "\<not> sublist (lower ''rude'') (lower ''Refund only'')" by code_simp
  note a = keyword_filter_and_or [OF prepare_refund_slow_rude]
  note b = keyword_filter_and_or [OF prepare_slow_rude]
  show ?thesis
    using a [of "''Refund only, nothing else''"] a [of "''Slow and rude''"]
      b [of "''Rude staff''"] b [of "''Refund only''"] prepare_refund_slow_rude prepare_slow_rude s1 s2 s3 s4 s5
    by simp
qed

section \<open>The page signature\<close>

lemma process_block_dupefix_links:
  "page_links_for_signature (process_block_dupefix e c s l b)
     = page_links_for_signature l
         @ (if truthy_str (b_permalink b) then [canonical_link (b_permalink b)] else [])"
  by (simp add: process_block_dupefix_def append_review_def Let_def split: option.split)

lemma process_block_dupefix_previous:
  "previous_page_signature (process_block_dupefix e c s l b) = previous_page_signature l
   \<and> same_page_signature_count (process_block_dupefix e c s l b) = same_page_signature_count l"
  by (simp add: process_block_dupefix_def append_review_def Let_def split: option.split)

lemma foldl_dupefix_links:
  "page_links_for_signature (foldl (process_block_dupefix e c s) l bs)
     = page_links_for_signature l
         @ map canonical_link (filter truthy_str (map b_permalink bs))"
  by (induction bs arbitrary: l) (simp_all add: process_block_dupefix_links)

lemma foldl_dupefix_previous:
  "previous_page_signature (foldl (process_block_dupefix e c s) l bs) = previous_page_signature l
   \<and> same_page_signature_count (foldl (process_block_dupefix e c s) l bs)
       = same_page_signature_count l"
  by (induction bs arbitrary: l) (simp_all add: process_block_dupefix_previous)

lemma process_page_dupefix_links:
  "page_links_for_signature (process_page (process_block_dupefix e c s) s l bs)
     = map canonical_link (filter truthy_str (map b_permalink bs))"
  by (simp add: process_page_def Let_def foldl_dupefix_links)

lemma process_page_dupefix_previous:
  "previous_page_signature (process_page (process_block_dupefix e c s) s l bs)
     = previous_page_signature l
   \<and> same_page_signature_count (process_page (process_block_dupefix e c s) s l bs)
       = same_page_signature_count l"
  by (simp add: process_page_def Let_def foldl_dupefix_previous)

lemma process_block_dupefix_page: "page (process_block_dupefix e c s l b) = page l"
  by (simp add: process_block_dupefix_def append_review_def Let_def split: option.split)

lemma foldl_dupefix_page: "page (foldl (process_block_dupefix e c s) l bs) = page l"
  by (induction bs arbitrary: l) (simp_all add: process_block_dupefix_page)

lemma process_block_app_links:
  "page_links_for_signature (process_block_app e c s l b)
     = page_links_for_signature l
         @ (if \<not> skipped_app b \<and> truthy_str (b_permalink b)
            then [canonical_link (b_permalink b)] else [])"
  by (simp add: process_block_app_def skipped_app_def append_review_def Let_def
      split: option.split)

lemma process_block_app_kept:
  "previous_page_signature (process_block_app e c s l b) = previous_page_signature l
   \<and> same_page_signature_count (process_block_app e c s l b) = same_page_signature_count l
   \<and> page (process_block_app e c s l b) = page l"
  by (simp add: process_block_app_def append_review_def Let_def split: option.split)

lemma foldl_app_links:
  "page_links_for_signature (foldl (process_block_app e c s) l bs)
     = page_links_for_signature l
         @ map canonical_link
             (filter truthy_str (map b_permalink (filter (\<lambda>b. \<not> skipped_app b) bs)))"
  by (induction bs arbitrary: l) (simp_all add: process_block_app_links)

lemma foldl_app_kept:
  "previous_page_signature (foldl (process_block_app e c s) l bs) = previous_page_signature l
   \<and> same_page_signature_count (foldl (process_block_app e c s) l bs)
       = same_page_signature_count l
   \<and> page (foldl (process_block_app e c s) l bs) = page l"
  by (induction bs arbitrary: l) (simp_all add: process_block_app_kept)

text \<open>One iteration, for any per-record code that only appends links.\<close>

lemma loop_body_with_cards:
  assumes links: "\<And>l bs. page_links_for_signature (foldl process l bs)
                     = page_links_for_signature l @ f bs"
    and prev: "\<And>l bs. previous_page_signature (foldl process l bs) = previous_page_signature l"
    and same: "\<And>l bs. same_page_signature_count (foldl process l bs)
                     = same_page_signature_count l"
    and pg: "\<And>l bs. page (foldl process l bs) = page l"
    and nolimit: "\<not> page_limit_reached c (page l)"
    and cards: "page_has_cards w (page l)"
  shows "previous_page_signature (result_locals (loop_body process c s w l))
           = Some (take 20 (f (articles w (page l))))
       \<and> same_page_signature_count (result_locals (loop_body process c s w l))
           = (if previous_page_signature l = Some (take 20 (f (articles w (page l))))
              then same_page_signature_count l + 1 else 0)
       \<and> page (result_locals (loop_body process c s w l)) = page l + 1"
proof -
  let ?bs = "articles w (page l)"
  let ?p = "process_page process s l ?bs"
  have sig: "take 20 (page_links_for_signature ?p) = take 20 (f ?bs)"
    by (simp add: process_page_def Let_def links)
  have pprev: "previous_page_signature ?p = previous_page_signature l"
    by (simp add: process_page_def Let_def prev)
  have psame: "same_page_signature_count ?p = same_page_signature_count l"
    by (simp add: process_page_def Let_def same)
  have ppage: "page ?p = page l"
    by (simp add: process_page_def Let_def pg)
  let ?u = "update_signature ?p"
  have u1: "previous_page_signature ?u = Some (take 20 (f ?bs))"
    unfolding update_signature_def Let_def sig by simp
  have u2: "same_page_signature_count ?u
              = (if previous_page_signature l = Some (take 20 (f ?bs))
                 then same_page_signature_count l + 1 else 0)"
    unfolding update_signature_def Let_def sig pprev psame by auto
  have u3: "page ?u = page l"
    unfolding update_signature_def Let_def using ppage by simp
  let ?v = "update_no_additions ?u"
  have v: "previous_page_signature ?v = previous_page_signature ?u
           \<and> same_page_signature_count ?v = same_page_signature_count ?u
           \<and> page ?v = page ?u"
    by (simp add: update_no_additions_def)
  have body: "result_locals (loop_body process c s w l) = ?v\<lparr>page := page ?v + 1\<rparr>"
    using nolimit cards by (simp add: loop_body_def page_has_cards_def Let_def)
  show ?thesis
    unfolding body using u1 u2 u3 v by simp
qed

lemma loop_body_without_cards:
  assumes nolimit: "\<not> page_limit_reached c (page l)"
    and nocards: "\<not> page_has_cards w (page l)"
  shows "previous_page_signature (result_locals (loop_body process c s w l))
           = previous_page_signature l
       \<and> same_page_signature_count (result_locals (loop_body process c s w l))
           = same_page_signature_count l
       \<and> page (result_locals (loop_body process c s w l)) = page l + 1"
  using assms by (auto simp add: loop_body_def page_has_cards_def Let_def)

lemma loop_body_limit:
  "page_limit_reached c (page l) \<Longrightarrow> loop_body process c s w l = Break l"
  by (simp add: loop_body_def)

lemma after_iterations_stored:
  assumes links: "\<And>l bs. page_links_for_signature (foldl process l bs)
                     = page_links_for_signature l @ f bs"
    and prev: "\<And>l bs. previous_page_signature (foldl process l bs) = previous_page_signature l"
    and same: "\<And>l bs. same_page_signature_count (foldl process l bs)
                     = same_page_signature_count l"
    and pg: "\<And>l bs. page (foldl process l bs) = page l"
  shows "after_iterations n (loop_body process c s w) l0 = Some l
     \<Longrightarrow> page l0 = int k + 1
     \<Longrightarrow> previous_page_signature l0 = stored_signature (\<lambda>bs. take 20 (f bs)) w k
     \<Longrightarrow> page l = int (n + k) + 1
         \<and> previous_page_signature l = stored_signature (\<lambda>bs. take 20 (f bs)) w (n + k)"
proof (induction n arbitrary: l0 k)
  case 0
  then show ?case by simp
next
  case (Suc n)
  from Suc.prems(1) obtain l1 where step: "loop_body process c s w l0 = Continue l1"
    and rest: "after_iterations n (loop_body process c s w) l1 = Some l"
    by (auto split: control.splits)
  have nolimit: "\<not> page_limit_reached c (page l0)"
    using step loop_body_limit [of c l0 process s w] by auto
  have l1: "l1 = result_locals (loop_body process c s w l0)" using step by simp
  have st: "stored_signature (\<lambda>bs. take 20 (f bs)) w (Suc k)
              = (if page_has_cards w (page l0) then Some (take 20 (f (articles w (page l0))))
                 else stored_signature (\<lambda>bs. take 20 (f bs)) w k)"
    using Suc.prems(2) by (simp add: add.commute)
  have pk: "page l0 + 1 = int (Suc k) + 1"
    using Suc.prems(2) by simp
  have "page l1 = int (Suc k) + 1
        \<and> previous_page_signature l1 = stored_signature (\<lambda>bs. take 20 (f bs)) w (Suc k)"
  proof (cases "page_has_cards w (page l0)")
    case True
    from loop_body_with_cards [OF links prev same pg nolimit True, of s]
    have "previous_page_signature l1 = Some (take 20 (f (articles w (page l0))))"
      and "page l1 = page l0 + 1"
      unfolding l1 by blast+
    then show ?thesis unfolding st pk [symmetric] using True by simp
  next
    case False
    from loop_body_without_cards [OF nolimit False, of process s]
    have "previous_page_signature l1 = previous_page_signature l0"
      and "page l1 = page l0 + 1"
      unfolding l1 by blast+
    then show ?thesis unfolding st pk [symmetric] using False Suc.prems(3) by simp
  qed
  then have "page l = int (n + Suc k) + 1
     \<and> previous_page_signature l = stored_signature (\<lambda>bs. take 20 (f bs)) w (n + Suc k)"
    using Suc.IH [OF rest, of "Suc k"] by blast
  then show ?case by simp
qed

lemma process_page_app_links:
  "page_links_for_signature (process_page (process_block_app e c s) s l bs)
     = map canonical_link
         (filter truthy_str (map b_permalink (filter (\<lambda>b. \<not> skipped_app b) bs)))"
  by (simp add: process_page_def Let_def foldl_app_links)

lemma linked_signature_fun:
  "linked_signature
     = (\<lambda>bs. take 20 (map canonical_link (filter truthy_str (map b_permalink bs))))"
  by (rule ext) (simp add: linked_signature_def)

lemma app_signature_fun:
  "app_signature
     = (\<lambda>bs. take 20 (map canonical_link
                 (filter truthy_str (map b_permalink (filter (\<lambda>b. \<not> skipped_app b) bs)))))"
  by (rule ext) (simp add: app_signature_def)

lemma dupefix_run_stored:
  assumes "after_iterations n (loop_body (process_block_dupefix e c s) c s w)
             (init_locals e prior) = Some l"
  shows "page l = int n + 1
       \<and> previous_page_signature l = stored_signature linked_signature w n"
proof -
  have "page l = int (n + 0) + 1
      \<and> previous_page_signature l = stored_signature linked_signature w (n + 0)"
    unfolding linked_signature_fun
    by (rule after_iterations_stored [OF _ _ _ _ assms])
       (simp_all add: foldl_dupefix_links foldl_dupefix_previous foldl_dupefix_page
          init_locals_def)
  then show ?thesis by simp
qed

lemma app_run_stored:
  assumes "after_iterations n (loop_body (process_block_app e c s) c s w)
             (init_locals e prior) = Some l"
  shows "page l = int n + 1
       \<and> previous_page_signature l = stored_signature app_signature w n"
proof -
  have "page l = int (n + 0) + 1
      \<and> previous_page_signature l = stored_signature app_signature w (n + 0)"
    unfolding app_signature_fun
    by (rule after_iterations_stored [OF _ _ _ _ assms])
       (simp_all add: foldl_app_links foldl_app_kept init_locals_def)
  then show ?thesis by simp
qed

lemma dupefix_step_cards:
  assumes "\<not> page_limit_reached c (page l)" and "page_has_cards w (page l)"
  shows "previous_page_signature
           (result_locals (loop_body (process_block_dupefix e c s) c s w l))
           = Some (linked_signature (articles w (page l)))
       \<and> same_page_signature_count
           (result_locals (loop_body (process_block_dupefix e c s) c s w l))
           = (if previous_page_signature l = Some (linked_signature (articles w (page l)))
              then same_page_signature_count l + 1 else 0)"
  using loop_body_with_cards [OF _ _ _ _ assms,
      where process = "process_block_dupefix e c s"
        and f = "\<lambda>bs. map canonical_link (filter truthy_str (map b_permalink bs))" and s = s]
  by (simp add: foldl_dupefix_links foldl_dupefix_previous foldl_dupefix_page
      linked_signature_def)

lemma app_step_cards:
  assumes "\<not> page_limit_reached c (page l)" and "page_has_cards w (page l)"
  shows "previous_page_signature
           (result_locals (loop_body (process_block_app e c s) c s w l))
           = Some (app_signature (articles w (page l)))
       \<and> same_page_signature_count
           (result_locals (loop_body (process_block_app e c s) c s w l))
           = (if previous_page_signature l = Some (app_signature (articles w (page l)))
              then same_page_signature_count l + 1 else 0)"
  using loop_body_with_cards [OF _ _ _ _ assms,
      where process = "process_block_app e c s"
        and f = "\<lambda>bs. map canonical_link
                   (filter truthy_str (map b_permalink (filter (\<lambda>b. \<not> skipped_app b) bs)))"
        and s = s]
  by (simp add: foldl_app_links foldl_app_kept app_signature_def)

text \<open>
  Claim C5, as stated, fails twice. On a page whose first record has no link and whose
  second has one, the code's signature has one entry, the specification's two (the first
  empty). And on a site with the same card on pages 1 and 3 and no card on page 2, the
  third iteration counts a repeat, although the sequence of the immediately preceding
  page 2 is empty and that of page 3 is not: the comparison is with page 1.
\<close>

theorem page_signature_counterexample:
  "page_signature_dupefix test_env cfg_all_pages (prepare_dupefix test_env cfg_all_pages)
       (init_locals test_env []) [linkless_block, old_block]
     = [''https://x/reviews/1'']
   \<and> signature_spec [linkless_block, old_block] = [[], ''https://x/reviews/1'']
   \<and> page_signature_dupefix test_env cfg_all_pages (prepare_dupefix test_env cfg_all_pages)
         (init_locals test_env []) [linkless_block, old_block]
       \<noteq> signature_spec [linkless_block, old_block]
   \<and> signature_spec (articles gap_world 2) = []
   \<and> signature_spec (articles gap_world 3) = [''https://x/reviews/1'']
   \<and> after_iterations 2
         (loop_body (process_block_dupefix test_env cfg_all_pages
                       (prepare_dupefix test_env cfg_all_pages))
            cfg_all_pages (prepare_dupefix test_env cfg_all_pages) gap_world)
         (init_locals test_env []) \<noteq> None
   \<and> same_page_signature_count
         (result_locals
            (loop_body (process_block_dupefix test_env cfg_all_pages
                          (prepare_dupefix test_env cfg_all_pages))
               cfg_all_pages (prepare_dupefix test_env cfg_all_pages) gap_world
               (the (after_iterations 2
                      (loop_body (process_block_dupefix test_env cfg_all_pages
                                    (prepare_dupefix test_env cfg_all_pages))
                         cfg_all_pages (prepare_dupefix test_env cfg_all_pages) gap_world)
                      (init_locals test_env []))))) = 1
   \<and> scrape_reviews_dupefix 3 test_env gap_world cfg_all_pages
       = Some [\<lparr>r_reviewer = ''Ann'', r_date = ''2020-01-01'',
                 r_link = ''https://x/reviews/1'', r_text = ''Slow refund''\<rparr>]"
proof -
  have a: "page_signature_dupefix test_env cfg_all_pages (prepare_dupefix test_env cfg_all_pages)
             (init_locals test_env []) [linkless_block, old_block] = [''https://x/reviews/1'']"
    by code_simp
  have b: "signature_spec [linkless_block, old_block] = [[], ''https://x/reviews/1'']"
    by code_simp
  have c: "signature_spec (articles gap_world 2) = []" by code_simp
  have d: "signature_spec (articles gap_world 3) = [''https://x/reviews/1'']" by code_simp
  have e: "after_iterations 2
         (loop_body (process_block_dupefix test_env cfg_all_pages
                       (prepare_dupefix test_env cfg_all_pages))
            cfg_all_pages (prepare_dupefix test_env cfg_all_pages) gap_world)
         (init_locals test_env []) \<noteq> None"
    by code_simp
  have f: "same_page_signature_count
         (result_locals
            (loop_body (process_block_dupefix test_env cfg_all_pages
                          (prepare_dupefix test_env cfg_all_pages))
               cfg_all_pages (prepare_dupefix test_env cfg_all_pages) gap_world
               (the (after_iterations 2
                      (loop_body (process_block_dupefix test_env cfg_all_pages
                                    (prepare_dupefix test_env cfg_all_pages))
                         cfg_all_pages (prepare_dupefix test_env cfg_all_pages) gap_world)
                      (init_locals test_env []))))) = 1"
    by code_simp
  have g: "scrape_reviews_dupefix 3 test_env gap_world cfg_all_pages
       = Some [\<lparr>r_reviewer = ''Ann'', r_date = ''2020-01-01'',
                 r_link = ''https://x/reviews/1'', r_text = ''Slow refund''\<rparr>]"
    by code_simp
  from a b have "page_signature_dupefix test_env cfg_all_pages
                   (prepare_dupefix test_env cfg_all_pages)
                   (init_locals test_env []) [linkless_block, old_block]
                 \<noteq> signature_spec [linkless_block, old_block]"
    by simp
  with a b c d e f g show ?thesis by (intro conjI)
qed

text \<open>
  Claim C5, amended. In trustpilot_scraper_dupefix.py the signature of a page with cards
  is the first 20 entries of the canonical links of the records that have a link, in
  extraction order; a record without a link leaves no entry. In
  sortingapp/app/scrape_reviews.py the records whose text is empty or a teaser leave no
  entry either. In both, when the loop has made \<open>n\<close> iterations from its start without
  leaving, it is at page \<open>n + 1\<close> and the stored signature is that of the most recent
  page with cards among pages 1 to \<open>n\<close> (none when there is no such page); and if page
  \<open>n + 1\<close> is within the page limit and has cards, its iteration raises the repeat counter
  by one exactly when its signature equals that stored signature and otherwise sets it to
  zero, and stores its signature.
\<close>

theorem page_signature_linked:
  "page_signature_dupefix e c s l0 blocks = linked_signature blocks
   \<and> page_signature_app e c s l0 blocks = app_signature blocks
   \<and> (after_iterations n (loop_body (process_block_dupefix e c s) c s w)
          (init_locals e prior) = Some l
        \<longrightarrow> page l = int n + 1
            \<and> previous_page_signature l = stored_signature linked_signature w n)
   \<and> (after_iterations n (loop_body (process_block_dupefix e c s) c s w)
          (init_locals e prior) = Some l
        \<and> \<not> page_limit_reached c (int n + 1) \<and> page_has_cards w (int n + 1)
        \<longrightarrow> same_page_signature_count
              (result_locals (loop_body (process_block_dupefix e c s) c s w l))
              = (if stored_signature linked_signature w n
                      = Some (linked_signature (articles w (int n + 1)))
                 then same_page_signature_count l + 1 else 0)
            \<and> previous_page_signature
                (result_locals (loop_body (process_block_dupefix e c s) c s w l))
                = Some (linked_signature (articles w (int n + 1))))
   \<and> (after_iterations n (loop_body (process_block_app e c s) c s w)
          (init_locals e prior) = Some l'
        \<longrightarrow> page l' = int n + 1
            \<and> previous_page_signature l' = stored_signature app_signature w n)
   \<and> (after_iterations n (loop_body (process_block_app e c s) c s w)
          (init_locals e prior) = Some l'
        \<and> \<not> page_limit_reached c (int n + 1) \<and> page_has_cards w (int n + 1)
        \<longrightarrow> same_page_signature_count
              (result_locals (loop_body (process_block_app e c s) c s w l'))
              = (if stored_signature app_signature w n
                      = Some (app_signature (articles w (int n + 1)))
                 then same_page_signature_count l' + 1 else 0)
            \<and> previous_page_signature
                (result_locals (loop_body (process_block_app e c s) c s w l'))
                = Some (app_signature (articles w (int n + 1))))"
proof -
  have 1: "page_signature_dupefix e c s l0 blocks = linked_signature blocks"
    by (simp add: page_signature_dupefix_def process_page_dupefix_links linked_signature_def)
  have 2: "page_signature_app e c s l0 blocks = app_signature blocks"
    by (simp add: page_signature_app_def process_page_app_links app_signature_def)
  have 3: "page l = int n + 1
            \<and> previous_page_signature l = stored_signature linked_signature w n"
    if "after_iterations n (loop_body (process_block_dupefix e c s) c s w)
          (init_locals e prior) = Some l"
    using that by (rule dupefix_run_stored)
  have 4: "same_page_signature_count
              (result_locals (loop_body (process_block_dupefix e c s) c s w l))
              = (if stored_signature linked_signature w n
                      = Some (linked_signature (articles w (int n + 1)))
                 then same_page_signature_count l + 1 else 0)
            \<and> previous_page_signature
                (result_locals (loop_body (process_block_dupefix e c s) c s w l))
                = Some (linked_signature (articles w (int n + 1)))"
    if h: "after_iterations n (loop_body (process_block_dupefix e c s) c s w)
          (init_locals e prior) = Some l
        \<and> \<not> page_limit_reached c (int n + 1) \<and> page_has_cards w (int n + 1)"
  proof -
    from h 3 have pl: "page l = int n + 1"
      and st: "previous_page_signature l = stored_signature linked_signature w n"
      by blast+
    from h have "\<not> page_limit_reached c (page l)" and "page_has_cards w (page l)"
      unfolding pl by blast+
    from dupefix_step_cards [OF this, of e s] show ?thesis
      unfolding pl st by blast
  qed
  have 5: "page l' = int n + 1
            \<and> previous_page_signature l' = stored_signature app_signature w n"
    if "after_iterations n (loop_body (process_block_app e c s) c s w)
          (init_locals e prior) = Some l'"
    using that by (rule app_run_stored)
  have 6: "same_page_signature_count
              (result_locals (loop_body (process_block_app e c s) c s w l'))
              = (if stored_signature app_signature w n
                      = Some (app_signature (articles w (int n + 1)))
                 then same_page_signature_count l' + 1 else 0)
            \<and> previous_page_signature
                (result_locals (loop_body (process_block_app e c s) c s w l'))
                = Some (app_signature (articles w (int n + 1)))"
    if h: "after_iterations n (loop_body (process_block_app e c s) c s w)
          (init_locals e prior) = Some l'
        \<and> \<not> page_limit_reached c (int n + 1) \<and> page_has_cards w (int n + 1)"
  proof -
    from h 5 have pl: "page l' = int n + 1"
      and st: "previous_page_signature l' = stored_signature app_signature w n"
      by blast+
    from h have "\<not> page_limit_reached c (page l')" and "page_has_cards w (page l')"
      unfolding pl by blast+
    from app_step_cards [OF this, of e s] show ?thesis
      unfolding pl st by blast
  qed
  from 1 2 3 4 5 6 show ?thesis by blast
qed

theorem page_signature_linked_witness:
  "page_signature_dupefix test_env cfg_all_pages (prepare_dupefix test_env cfg_all_pages)
       (init_locals test_env []) [teaser_block, empty_text_block, linkless_block, old_block]
     = [''https://x/reviews/4'', ''https://x/reviews/3'', ''https://x/reviews/1'']
   \<and> page_signature_app test_env cfg_all_pages (prepare_dupefix test_env cfg_all_pages)
       (init_locals test_env []) [teaser_block, empty_text_block, linkless_block, old_block]
     = [''https://x/reviews/1'']
   \<and> after_iterations 2
         (loop_body (process_block_dupefix test_env cfg_all_pages
                       (prepare_dupefix test_env cfg_all_pages))
            cfg_all_pages (prepare_dupefix test_env cfg_all_pages) gap_world)
         (init_locals test_env []) \<noteq> None
   \<and> after_iterations 2
         (loop_body (process_block_app test_env cfg_all_pages
                       (prepare_dupefix test_env cfg_all_pages))
            cfg_all_pages (prepare_dupefix test_env cfg_all_pages) gap_world)
         (init_locals test_env []) \<noteq> None
   \<and> \<not> page_limit_reached cfg_all_pages 3
   \<and> page_has_cards gap_world 3
   \<and> \<not> page_has_cards gap_world 2
   \<and> stored_signature linked_signature gap_world 2 = Some [''https://x/reviews/1'']
   \<and> linked_signature (articles gap_world 3) = [''https://x/reviews/1'']
   \<and> page (the (after_iterations 2
         (loop_body (process_block_dupefix test_env cfg_all_pages
                       (prepare_dupefix test_env cfg_all_pages))
            cfg_all_pages (prepare_dupefix test_env cfg_all_pages) gap_world)
         (init_locals test_env []))) = 3
   \<and> same_page_signature_count
         (result_locals
            (loop_body (process_block_dupefix test_env cfg_all_pages
                          (prepare_dupefix test_env cfg_all_pages))
               cfg_all_pages (prepare_dupefix test_env cfg_all_pages) gap_world
               (the (after_iterations 2
                      (loop_body (process_block_dupefix test_env cfg_all_pages
                                    (prepare_dupefix test_env cfg_all_pages))
                         cfg_all_pages (prepare_dupefix test_env cfg_all_pages) gap_world)
                      (init_locals test_env []))))) = 1
   \<and> same_page_signature_count
         (result_locals
            (loop_body (process_block_app test_env cfg_all_pages
                          (prepare_dupefix test_env cfg_all_pages))
               cfg_all_pages (prepare_dupefix test_env cfg_all_pages) gap_world
               (the (after_iterations 2
                      (loop_body (process_block_app test_env cfg_all_pages
                                    (prepare_dupefix test_env cfg_all_pages))
                         cfg_all_pages (prepare_dupefix test_env cfg_all_pages) gap_world)
                      (init_locals test_env []))))) = 1"
proof -
  let ?S = "prepare_dupefix test_env cfg_all_pages"
  let ?D = "loop_body (process_block_dupefix test_env cfg_all_pages ?S) cfg_all_pages ?S gap_world"
  let ?A = "loop_body (process_block_app test_env cfg_all_pages ?S) cfg_all_pages ?S gap_world"
  let ?I = "init_locals test_env []"
  let ?bs = "[teaser_block, empty_text_block, linkless_block, old_block]"
  have dn: "after_iterations 2 ?D ?I \<noteq> None" by code_simp
  have an: "after_iterations 2 ?A ?I \<noteq> None" by code_simp
  from dn have dl: "after_iterations 2 ?D ?I = Some (the (after_iterations 2 ?D ?I))" by simp
  from an have al: "after_iterations 2 ?A ?I = Some (the (after_iterations 2 ?A ?I))" by simp
  have lim: "\<not> page_limit_reached cfg_all_pages 3"
    by (simp add: page_limit_reached_def cfg_all_pages_def)
  have cards: "page_has_cards gap_world 3" by code_simp
  have nocards: "\<not> page_has_cards gap_world 2" by code_simp
  have ls: "linked_signature ?bs
              = [''https://x/reviews/4'', ''https://x/reviews/3'', ''https://x/reviews/1'']"
    by code_simp
  have asig: "app_signature ?bs = [''https://x/reviews/1'']" by code_simp
  have st: "stored_signature linked_signature gap_world 2 = Some [''https://x/reviews/1'']"
    by code_simp
  have sta: "stored_signature app_signature gap_world 2 = Some [''https://x/reviews/1'']"
    by code_simp
  have l3: "linked_signature (articles gap_world 3) = [''https://x/reviews/1'']" by code_simp
  have a3: "app_signature (articles gap_world 3) = [''https://x/reviews/1'']" by code_simp
  have d0: "same_page_signature_count (the (after_iterations 2 ?D ?I)) = 0" by code_simp
  have a0: "same_page_signature_count (the (after_iterations 2 ?A ?I)) = 0" by code_simp
  note inst = page_signature_linked
    [where e = test_env and c = cfg_all_pages and s = ?S and ?l0.0 = ?I and blocks = ?bs
       and n = 2 and w = gap_world and prior = "[]"
       and l = "the (after_iterations 2 ?D ?I)" and l' = "the (after_iterations 2 ?A ?I)"]
  from inst have c1: "page_signature_dupefix test_env cfg_all_pages ?S ?I ?bs = linked_signature ?bs"
    by (elim conjE) assumption
  from inst have c2: "page_signature_app test_env cfg_all_pages ?S ?I ?bs = app_signature ?bs"
    by (elim conjE) assumption
  from inst dl have c3: "page (the (after_iterations 2 ?D ?I)) = 3"
    by (elim conjE) simp
  from inst dl lim cards have c4:
    "same_page_signature_count (result_locals (?D (the (after_iterations 2 ?D ?I)))) = 1"
    by (elim conjE) (simp add: st l3 d0)
  from inst al lim cards have c6:
    "same_page_signature_count (result_locals (?A (the (after_iterations 2 ?A ?I)))) = 1"
    by (elim conjE) (simp add: sta a3 a0)
  from c1 c2 ls asig dn an lim cards nocards st l3 c3 c4 c6 show ?thesis
    by (intro conjI) simp_all
qed

section \<open>Fetching and stopping\<close>

lemma load_page_cases:
  "load_page ok =
     (if ok 1 then (True, 1) else if ok 2 then (True, 2)
      else if ok 3 then (True, 3) else (False, 3))"
proof -
  have "[1..<max_retries + 1] = [1, 2, 3]"
    by (simp add: max_retries_def upt_rec)
  then show ?thesis
    by (simp add: load_page_def max_retries_def)
qed

lemma load_page_attempts: "snd (load_page ok) \<le> max_retries"
  by (simp add: load_page_cases max_retries_def)

lemma load_page_failed_iff: "\<not> fst (load_page ok) \<longleftrightarrow> \<not> ok 1 \<and> \<not> ok 2 \<and> \<not> ok 3"
  by (simp add: load_page_cases)

text \<open>
  A page that cannot be loaded in three attempts: the page number advances and nothing
  else changes; the loop goes on.
\<close>

lemma loop_body_fetch_failed:
  assumes "\<not> page_limit_reached c (page l)"
    and "\<not> get_ok w (page l) 1" and "\<not> get_ok w (page l) 2" and "\<not> get_ok w (page l) 3"
  shows "loop_body process c s w l = Continue (l\<lparr>page := page l + 1\<rparr>)"
  using assms by (simp add: loop_body_def load_page_cases)

text \<open>A loaded page without cards: the counter of pages without additions goes up by one.\<close>

lemma loop_body_no_cards:
  assumes "\<not> page_limit_reached c (page l)"
    and "get_ok w (page l) 1" and "articles w (page l) = []"
  shows "loop_body process c s w l =
           (let l' = l\<lparr>page := page l + 1,
                       consecutive_no_additions := consecutive_no_additions l + 1\<rparr>
            in if (cfg_mode c \<noteq> 1 \<or> \<not> truthy_int (cfg_max_pages c))
                   \<and> consecutive_no_additions l' \<ge> max_consecutive_no_additions
               then Break l' else Continue l')"
  using assms by (simp add: loop_body_def load_page_cases Let_def)

text \<open>In a mode other than 1, 2 and 3 the stopping rules never ask to stop.\<close>

lemma should_stop_other_mode:
  "cfg_mode c \<noteq> 1 \<Longrightarrow> cfg_mode c \<noteq> 2 \<Longrightarrow> cfg_mode c \<noteq> 3 \<Longrightarrow> \<not> should_stop c s l"
  by (simp add: should_stop_def)

lemma loop_body_other_mode:
  assumes "cfg_mode c \<noteq> 1" and "cfg_mode c \<noteq> 2" and "cfg_mode c \<noteq> 3"
    and "get_ok w (page l) 1" and "articles w (page l) \<noteq> []"
  shows "\<exists>l'. loop_body process c s w l = Continue l'"
  using assms
  by (simp add: loop_body_def load_page_cases page_limit_reached_def Let_def
      should_stop_other_mode)

lemma scrape_loop_never:
  "(\<And>l. \<exists>l'. body l = Continue l') \<Longrightarrow> scrape_loop fuel body l = None"
proof (induction fuel arbitrary: l)
  case 0
  show ?case by simp
next
  case (Suc fuel)
  from Suc.prems obtain l' where "body l = Continue l'" by blast
  with Suc show ?case by simp
qed

text \<open>
  Claim C1 does not hold of sortingapp/app/scrape_reviews.py. In mode 4 (date interval),
  on a site that answers every page with the same card outside the interval, the loop
  has not stopped after any number of iterations, although the page signature repeats
  from the second page on and no page adds a review; in mode 1 without a page limit the
  same site stops the loop after two pages.
\<close>

theorem date_range_never_stops:
  "(\<forall>fuel. scrape_reviews_app fuel test_env same_page_world cfg_year_2024 = None)
   \<and> scrape_reviews_app 2 test_env same_page_world cfg_all_pages
       = Some (Inr [\<lparr>r_reviewer = ''Ann'', r_date = ''2020-01-01'',
                      r_link = ''https://x/reviews/1'', r_text = ''Slow refund''\<rparr>])"
proof -
  have p: "prepare_app test_env cfg_year_2024
             = Inr \<lparr>cutoff_date = None, start_dt = Some 1704067200000000,
                    end_dt = Some 1735603200000000, keyword_and = [], keyword_or = []\<rparr>"
    by code_simp
  have "scrape_reviews_app fuel test_env same_page_world cfg_year_2024 = None" for fuel
  proof -
    have "\<exists>l'. loop_body process cfg_year_2024 s same_page_world l = Continue l'" for process s l
      by (rule loop_body_other_mode) (simp_all add: cfg_year_2024_def same_page_world_def)
    then show ?thesis
      by (simp add: scrape_reviews_app_def p scrape_loop_never)
  qed
  moreover have "scrape_reviews_app 2 test_env same_page_world cfg_all_pages
       = Some (Inr [\<lparr>r_reviewer = ''Ann'', r_date = ''2020-01-01'',
                      r_link = ''https://x/reviews/1'', r_text = ''Slow refund''\<rparr>])"
    by code_simp
  ultimately show ?thesis by blast
qed

text \<open>
  Claim C8, as stated, fails in its last part. A page that fails all three attempts
  advances the page number and leaves the counter of pages without additions as it was,
  where a loaded page without cards raises it and ends the run at three. So on a site no
  page of which loads the loop has not stopped after any number of iterations, while a
  site of empty pages stops it after three.
\<close>

theorem failed_fetch_not_counted:
  "load_page (get_ok dead_world 1) = (False, 3)
   \<and> loop_body (process_block_dupefix test_env cfg_all_pages
                   (prepare_dupefix test_env cfg_all_pages))
        cfg_all_pages (prepare_dupefix test_env cfg_all_pages) dead_world
        ((init_locals test_env [])\<lparr>consecutive_no_additions := 2\<rparr>)
       = Continue ((init_locals test_env [])\<lparr>consecutive_no_additions := 2, page := 2\<rparr>)
   \<and> loop_body (process_block_dupefix test_env cfg_all_pages
                   (prepare_dupefix test_env cfg_all_pages))
        cfg_all_pages (prepare_dupefix test_env cfg_all_pages) empty_world
        ((init_locals test_env [])\<lparr>consecutive_no_additions := 2\<rparr>)
       = Break ((init_locals test_env [])\<lparr>consecutive_no_additions := 3, page := 2\<rparr>)
   \<and> (\<forall>fuel. scrape_reviews_dupefix fuel test_env dead_world cfg_all_pages = None)
   \<and> scrape_reviews_dupefix 3 test_env empty_world cfg_all_pages = Some []"
proof -
  let ?P = "process_block_dupefix test_env cfg_all_pages (prepare_dupefix test_env cfg_all_pages)"
  let ?S = "prepare_dupefix test_env cfg_all_pages"
  let ?L = "(init_locals test_env [])\<lparr>consecutive_no_additions := 2\<rparr>"
  have nolimit: "\<not> page_limit_reached cfg_all_pages p" for p
    by (simp add: page_limit_reached_def cfg_all_pages_def)
  have 1: "load_page (get_ok dead_world 1) = (False, 3)"
    by (simp add: load_page_cases dead_world_def)
  have 2: "loop_body ?P cfg_all_pages ?S dead_world ?L
             = Continue ((init_locals test_env [])\<lparr>consecutive_no_additions := 2, page := 2\<rparr>)"
    by (subst loop_body_fetch_failed)
       (simp_all add: nolimit dead_world_def init_locals_def)
  have 3: "loop_body ?P cfg_all_pages ?S empty_world ?L
             = Break ((init_locals test_env [])\<lparr>consecutive_no_additions := 3, page := 2\<rparr>)"
    by (subst loop_body_no_cards)
       (simp_all add: page_limit_reached_def empty_world_def init_locals_def Let_def
          max_consecutive_no_additions_def cfg_all_pages_def truthy_int_def)
  have 4: "scrape_reviews_dupefix fuel test_env dead_world cfg_all_pages = None" for fuel
  proof -
    have "\<exists>l'. loop_body ?P cfg_all_pages ?S dead_world l = Continue l'" for l
      by (subst loop_body_fetch_failed) (simp_all add: nolimit dead_world_def)
    then show ?thesis
      by (simp add: scrape_reviews_dupefix_def Let_def scrape_loop_never)
  qed
  have 5: "scrape_reviews_dupefix 3 test_env empty_world cfg_all_pages = Some []"
    by code_simp
  from 1 2 3 4 5 show ?thesis by blast
qed

text \<open>
  Claim C8, amended. Loading a page is tried at most three times. When all three attempts
  fail (and only then) the page counts as not loaded: unless the page limit is reached,
  the iteration processes no record, advances the page number by one, continues the loop
  and changes nothing else; in particular the counter of pages without additions and the
  stored signature stay as they were.
\<close>

theorem fetch_failure_skips_page:
  "snd (load_page ok) \<le> 3
   \<and> (\<not> fst (load_page ok) \<longleftrightarrow> \<not> ok 1 \<and> \<not> ok 2 \<and> \<not> ok 3)
   \<and> (\<not> page_limit_reached c (page l) \<and> \<not> fst (load_page (get_ok w (page l)))
        \<longrightarrow> loop_body process c s w l = Continue (l\<lparr>page := page l + 1\<rparr>))"
proof -
  have 1: "snd (load_page ok) \<le> 3"
    using load_page_attempts [of ok] by (simp add: max_retries_def)
  have 2: "\<not> fst (load_page ok) \<longleftrightarrow> \<not> ok 1 \<and> \<not> ok 2 \<and> \<not> ok 3"
    by (rule load_page_failed_iff)
  have 3: "loop_body process c s w l = Continue (l\<lparr>page := page l + 1\<rparr>)"
    if "\<not> page_limit_reached c (page l) \<and> \<not> fst (load_page (get_ok w (page l)))"
    using that by (simp add: loop_body_def)
  from 1 2 3 show ?thesis by blast
qed

theorem fetch_failure_skips_page_witness:
  "\<not> page_limit_reached cfg_all_pages (page (init_locals test_env []))
   \<and> \<not> fst (load_page (get_ok dead_world (page (init_locals test_env []))))
   \<and> snd (load_page (get_ok dead_world 1)) = 3
   \<and> loop_body (process_block_dupefix test_env cfg_all_pages
                   (prepare_dupefix test_env cfg_all_pages))
        cfg_all_pages (prepare_dupefix test_env cfg_all_pages) dead_world
        (init_locals test_env [])
       = Continue ((init_locals test_env [])\<lparr>page := 2\<rparr>)"
proof -
  have a: "\<not> page_limit_reached cfg_all_pages (page (init_locals test_env []))"
    by (simp add: page_limit_reached_def cfg_all_pages_def)
  have b: "\<not> fst (load_page (get_ok dead_world (page (init_locals test_env []))))"
    by (simp add: load_page_cases dead_world_def)
  have c: "snd (load_page (get_ok dead_world 1)) = 3"
    by (simp add: load_page_cases dead_world_def)
  have d: "page (init_locals test_env []) + 1 = 2"
    by (simp add: init_locals_def)
  from a b c d
    fetch_failure_skips_page [of "get_ok dead_world 1" cfg_all_pages "init_locals test_env []"
      dead_world "process_block_dupefix test_env cfg_all_pages
                    (prepare_dupefix test_env cfg_all_pages)"
      "prepare_dupefix test_env cfg_all_pages"]
  show ?thesis by simp
qed

section \<open>Accepting a record\<close>

text \<open>
  In trustpilot_scraper.py a record dated before the cutoff changes nothing.
\<close>

lemma process_block_base_older:
  "parse_date e b = Some d \<Longrightarrow> older_than (cutoff_date s) d
     \<Longrightarrow> process_block_base e c s url l b = l"
  by (simp add: process_block_base_def Let_def)

text \<open>
  In trustpilot_scraper_dupefix.py the cutoff decides the page flag only: the accepted
  reviews and the keys are the same for every cutoff.
\<close>

lemma process_block_dupefix_any_cutoff:
  "reviews (process_block_dupefix e c (s\<lparr>cutoff_date := x\<rparr>) l b)
     = reviews (process_block_dupefix e c s l b)
   \<and> seen_keys (process_block_dupefix e c (s\<lparr>cutoff_date := x\<rparr>) l b)
       = seen_keys (process_block_dupefix e c s l b)"
  by (simp add: process_block_dupefix_def append_review_def Let_def split: option.split)

text \<open>
  In trustpilot_scraper_dupefix.py a record either changes neither the reviews nor the
  keys, or it has a date, passes the keyword filter, has a key not seen before, and then
  the key is added and the review appended together.
\<close>

lemma process_block_dupefix_key_with_review:
  "(reviews (process_block_dupefix e c s l b) = reviews l
      \<and> seen_keys (process_block_dupefix e c s l b) = seen_keys l)
   \<or> (\<exists>d. parse_date e b = Some d
          \<and> keyword_filter (cfg_keywords c) (keyword_and s) (keyword_or s) (b_text b)
          \<and> stable_review_key (sha256_hex e) (b_reviewer b) (strftime e d)
                (or_empty (b_permalink b)) (b_text b) \<notin> seen_keys l
          \<and> seen_keys (process_block_dupefix e c s l b)
                = insert (stable_review_key (sha256_hex e) (b_reviewer b) (strftime e d)
                            (or_empty (b_permalink b)) (b_text b)) (seen_keys l)
          \<and> reviews (process_block_dupefix e c s l b)
                = reviews l @ [\<lparr>r_reviewer = b_reviewer b, r_date = strftime e d,
                                  r_link = canonical_link (b_permalink b),
                                  r_text = b_text b\<rparr>])"
  by (simp add: process_block_dupefix_def append_review_def Let_def split: option.split)

text \<open>
  In sortingapp/app/scrape_reviews.py no review with an empty text is appended, by one
  record or by a page of records.
\<close>

lemma process_block_app_text:
  "r \<in> set (reviews (process_block_app e c s l b)) \<Longrightarrow> r \<in> set (reviews l) \<or> r_text r \<noteq> []"
  by (auto simp add: process_block_app_def append_review_def Let_def
      split: option.splits if_splits)

lemma foldl_process_block_app_text:
  "r \<in> set (reviews (foldl (process_block_app e c s) l bs))
     \<Longrightarrow> r \<in> set (reviews l) \<or> r_text r \<noteq> []"
proof (induction bs arbitrary: l)
  case Nil
  then show ?case by simp
next
  case (Cons b bs)
  from Cons.prems have "r \<in> set (reviews (foldl (process_block_app e c s)
                                              (process_block_app e c s l b) bs))"
    by simp
  then have "r \<in> set (reviews (process_block_app e c s l b)) \<or> r_text r \<noteq> []"
    by (rule Cons.IH)
  then show ?case using process_block_app_text by blast
qed

text \<open>
  Claim C3 does not hold of trustpilot_scraper_dupefix.py. With one month back and the
  session starting on 2024-06-15, the cutoff is 2024-05-16; a review of 2020-01-01 is
  older, and the run returns it as accepted. trustpilot_scraper.py rejects the same
  record.
\<close>

theorem months_back_accepts_older:
  "parse_date test_env old_block = Some 1577836800000000
   \<and> cutoff_date (prepare_dupefix test_env cfg_one_month) = Some 1715860800000000
   \<and> scrape_reviews_dupefix 4 test_env (one_page_world [old_block]) cfg_one_month
       = Some [\<lparr>r_reviewer = ''Ann'', r_date = ''2020-01-01'',
                 r_link = ''https://x/reviews/1'', r_text = ''Slow refund''\<rparr>]
   \<and> base_reviews (process_page_base test_env cfg_one_month ''https://x/page1'' base_start
                     [old_block]) = []"
proof -
  have 1: "parse_date test_env old_block = Some 1577836800000000" by code_simp
  have 2: "cutoff_date (prepare_dupefix test_env cfg_one_month) = Some 1715860800000000"
    by code_simp
  have 3: "scrape_reviews_dupefix 4 test_env (one_page_world [old_block]) cfg_one_month
       = Some [\<lparr>r_reviewer = ''Ann'', r_date = ''2020-01-01'',
                 r_link = ''https://x/reviews/1'', r_text = ''Slow refund''\<rparr>]"
    by code_simp
  have 4: "base_reviews (process_page_base test_env cfg_one_month ''https://x/page1'' base_start
                     [old_block]) = []"
    by code_simp
  from 1 2 3 4 show ?thesis by blast
qed

text \<open>
  Claim C4 does not hold of trustpilot_scraper.py. With the keyword refund, a record
  whose text lacks the keyword is not appended, yet its link is put into the set of seen
  links; a later record with the same link and a matching text is then dropped as a
  duplicate. trustpilot_scraper_dupefix.py accepts that later record.
\<close>

theorem base_dedup_before_filter:
  "base_reviews (process_page_base test_env cfg_refund ''https://x/page1'' base_start
                   [recent_block]) = []
   \<and> seen_links (process_page_base test_env cfg_refund ''https://x/page1'' base_start
                    [recent_block]) = {''https://x/reviews/2''}
   \<and> base_reviews (process_page_base test_env cfg_refund ''https://x/page1'' base_start
                     [recent_block, recent_refund_block]) = []
   \<and> scrape_reviews_dupefix 4 test_env (one_page_world [recent_block, recent_refund_block])
         cfg_refund
       = Some [\<lparr>r_reviewer = ''Bob'', r_date = ''2024-06-01'',
                 r_link = ''https://x/reviews/2'', r_text = ''Refund refused''\<rparr>]"
proof -
  have 1: "base_reviews (process_page_base test_env cfg_refund ''https://x/page1'' base_start
                   [recent_block]) = []"
    by code_simp
  have 2: "seen_links (process_page_base test_env cfg_refund ''https://x/page1'' base_start
                    [recent_block]) = {''https://x/reviews/2''}"
    by code_simp
  have 3: "base_reviews (process_page_base test_env cfg_refund ''https://x/page1'' base_start
                     [recent_block, recent_refund_block]) = []"
    by code_simp
  have 4: "scrape_reviews_dupefix 4 test_env (one_page_world [recent_block, recent_refund_block])
         cfg_refund
       = Some [\<lparr>r_reviewer = ''Bob'', r_date = ''2024-06-01'',
                 r_link = ''https://x/reviews/2'', r_text = ''Refund refused''\<rparr>]"
    by code_simp
  from 1 2 3 4 show ?thesis by blast
qed

text \<open>
  Claim C7 does not hold of trustpilot_scraper_dupefix.py. In mode 1 a card with a date,
  a link and an empty text is appended and returned; sortingapp/app/scrape_reviews.py
  skips the same card.
\<close>

theorem dupefix_appends_empty_text:
  "scrape_reviews_dupefix 4 test_env (one_page_world [empty_text_block]) cfg_all_pages
     = Some [\<lparr>r_reviewer = ''Cy'', r_date = ''2024-06-01'',
               r_link = ''https://x/reviews/3'', r_text = []\<rparr>]
   \<and> scrape_reviews_app 4 test_env (one_page_world [empty_text_block]) cfg_all_pages
       = Some (Inr [])"
proof -
  have 1: "scrape_reviews_dupefix 4 test_env (one_page_world [empty_text_block]) cfg_all_pages
     = Some [\<lparr>r_reviewer = ''Cy'', r_date = ''2024-06-01'',
               r_link = ''https://x/reviews/3'', r_text = []\<rparr>]"
    by code_simp
  have 2: "scrape_reviews_app 4 test_env (one_page_world [empty_text_block]) cfg_all_pages
       = Some (Inr [])"
    by code_simp
  from 1 2 show ?thesis by blast
qed

end
